theory Spec2Isabelle
  imports Main "HOL-Library.Sublist"
begin

section \<open>Strings\<close>

text \<open>
  The analyser of \<^verbatim>\<open>src/index.tsx\<close> works on JavaScript strings, which are sequences
  of UTF-16 code units. A code unit is modelled by its numeric value, so that the bullet
  \<^verbatim>\<open>U+2022\<close> of the list-marker class and the Unicode white space of \<^verbatim>\<open>\s\<close> and
  \<^verbatim>\<open>trim()\<close> are part of the model. \<open>lit\<close> turns an ASCII literal into such a string.
\<close>

type_synonym jschar = int
type_synonym jsstring = "jschar list"

definition lit :: "string \<Rightarrow> jsstring" where
  "lit s = map of_char s"

text \<open>
  \<^verbatim>\<open>\s\<close> of a regular expression and the characters removed by \<^verbatim>\<open>trim()\<close> are the
  same set: ECMAScript's WhiteSpace and LineTerminator code points.
\<close>

definition isWhiteSpace :: "jschar \<Rightarrow> bool" where
  "isWhiteSpace c =
     (c = 0x09 \<or> c = 0x0A \<or> c = 0x0B \<or> c = 0x0C \<or> c = 0x0D \<or> c = 0x20 \<or> c = 0xA0 \<or>
      c = 0x1680 \<or> (0x2000 \<le> c \<and> c \<le> 0x200A) \<or> c = 0x2028 \<or> c = 0x2029 \<or>
      c = 0x202F \<or> c = 0x205F \<or> c = 0x3000 \<or> c = 0xFEFF)"

text \<open>The dot of a regular expression (no \<^verbatim>\<open>s\<close> flag) matches all but line terminators.\<close>

definition isLineTerminator :: "jschar \<Rightarrow> bool" where
  "isLineTerminator c = (c = 0x0A \<or> c = 0x0D \<or> c = 0x2028 \<or> c = 0x2029)"

definition trim :: "jsstring \<Rightarrow> jsstring" where
  "trim s = rev (dropWhile isWhiteSpace (rev (dropWhile isWhiteSpace s)))"

text \<open>
  \<^verbatim>\<open>toLowerCase()\<close> is modelled on the ASCII letters. Its results are only ever
  searched for the ASCII words \<^verbatim>\<open>none\<close>, \<^verbatim>\<open>harmful\<close>, \<^verbatim>\<open>bad\<close>, \<^verbatim>\<open>danger\<close>,
  \<^verbatim>\<open>concern\<close>, \<^verbatim>\<open>healthy\<close>, \<^verbatim>\<open>good\<close> and \<^verbatim>\<open>safe\<close>; the only characters
  outside ASCII whose lower case has an ASCII letter give \<^verbatim>\<open>i\<close> (U+0130) and
  \<^verbatim>\<open>k\<close> (U+212A), which occur in none of these words, so the searches cannot tell the
  difference.
\<close>

definition toLowerCaseUnit :: "jschar \<Rightarrow> jschar" where
  "toLowerCaseUnit c = (if 0x41 \<le> c \<and> c \<le> 0x5A then c + 0x20 else c)"

definition toLowerCase :: "jsstring \<Rightarrow> jsstring" where
  "toLowerCase s = map toLowerCaseUnit s"

text \<open>\<^verbatim>\<open>s.includes(w)\<close>: some position of \<open>s\<close> starts with \<open>w\<close>.\<close>

fun includesStr :: "jsstring \<Rightarrow> jsstring \<Rightarrow> bool" where
  "includesStr [] w = (w = [])"
| "includesStr (c # cs) w = (if prefix w (c # cs) then True else includesStr cs w)"

text \<open>\<^verbatim>\<open>s.split(d)\<close> for a separator of one code unit; the result is never empty.\<close>

fun split :: "jschar \<Rightarrow> jsstring \<Rightarrow> jsstring list" where
  "split d [] = [[]]"
| "split d (c # cs) =
     (if c = d then [] # split d cs
      else (case split d cs of [] \<Rightarrow> [[c]] | x # xs \<Rightarrow> (c # x) # xs))"

text \<open>
  \<^verbatim>\<open>a || b\<close> on a string that may be \<^verbatim>\<open>null\<close> or \<^verbatim>\<open>undefined\<close>: the empty string
  is falsy as well.
\<close>

definition orElse :: "jsstring option \<Rightarrow> jsstring \<Rightarrow> jsstring" where
  "orElse a b = (case a of None \<Rightarrow> b | Some s \<Rightarrow> if s = [] then b else s)"

text \<open>\<^verbatim>\<open>parts[i]\<close>: \<^verbatim>\<open>undefined\<close> beyond the end of the array.\<close>

fun index :: "'a list \<Rightarrow> nat \<Rightarrow> 'a option" where
  "index [] i = None"
| "index (x # xs) 0 = Some x"
| "index (x # xs) (Suc i) = index xs i"

section \<open>Regular expressions\<close>

text \<open>
  Under the \<^verbatim>\<open>i\<close> flag (and no \<^verbatim>\<open>u\<close> flag) two code units match when their
  canonical forms are equal. The canonical form is the upper case, except that a code unit
  outside ASCII never canonicalises into ASCII; all patterns of the analyser are ASCII, so
  only the ASCII part of the canonical form matters.
\<close>

definition canonicalize :: "jschar \<Rightarrow> jschar" where
  "canonicalize c = (if 0x61 \<le> c \<and> c \<le> 0x7A then c - 0x20 else c)"

text \<open>A literal pattern matched at the current position: what follows the match.\<close>

fun matchLiteral :: "jsstring \<Rightarrow> jsstring \<Rightarrow> jsstring option" where
  "matchLiteral [] s = Some s"
| "matchLiteral (p # ps) [] = None"
| "matchLiteral (p # ps) (c # cs) =
     (if canonicalize p = canonicalize c then matchLiteral ps cs else None)"

text \<open>
  \<^verbatim>\<open>text.match(regex)\<close> without the \<^verbatim>\<open>g\<close> flag: the pattern is tried at every start
  position from left to right, the end of the text included, and the first success wins.
\<close>

fun regexSearch :: "(jsstring \<Rightarrow> 'a option) \<Rightarrow> jsstring \<Rightarrow> 'a option" where
  "regexSearch m [] = m []"
| "regexSearch m (c # cs) =
     (case m (c # cs) of Some r \<Rightarrow> Some r | None \<Rightarrow> regexSearch m cs)"

text \<open>
  \<^verbatim>\<open>([\s\S]*?)(?=M1|...|$)\<close>: the shortest run of code units after which one of the
  markers follows or the text ends.
\<close>

fun lazyUntil :: "jsstring list \<Rightarrow> jsstring \<Rightarrow> jsstring" where
  "lazyUntil ms [] = []"
| "lazyUntil ms (c # cs) =
     (if list_ex (\<lambda>m. matchLiteral m (c # cs) \<noteq> None) ms then []
      else c # lazyUntil ms cs)"

text \<open>
  \<^verbatim>\<open>([\s\S]*?)END\<close>: the shortest run of code units followed by the literal; no match
  when the literal does not follow anywhere.
\<close>

fun lazyTo :: "jsstring \<Rightarrow> jsstring \<Rightarrow> jsstring option" where
  "lazyTo e [] = (if matchLiteral e [] = None then None else Some [])"
| "lazyTo e (c # cs) =
     (if matchLiteral e (c # cs) = None then map_option (Cons c) (lazyTo e cs)
      else Some [])"

section \<open>The data model\<close>

datatype status = Healthy | Harmful | Neutral

record Ingredient =
  name :: jsstring
  quantity :: jsstring
  status :: status
  description :: jsstring

record Source =
  title :: jsstring
  uri :: jsstring

record AnalysisResult =
  productName :: jsstring
  summary :: jsstring
  ingredients :: "Ingredient list"
  sources :: "Source list"
  fssaiNotice :: "jsstring option"
  healthScore :: "int option"

text \<open>A grounding chunk of the response: \<^verbatim>\<open>{ web?: { title, uri } }\<close>.\<close>

record GroundingChunk =
  web :: "Source option"

text \<open>The two errors thrown between receiving the response and \<^verbatim>\<open>setResult\<close>.\<close>

datatype error = EmptyResponse | ExtractionError

section \<open>The parsing logic of \<^verbatim>\<open>analyzeFood\<close>\<close>

text \<open>
  \<^verbatim>\<open>new RegExp(`${key}:\\s*(.*)`, 'i')\<close>, for a key without regular-expression
  operators (the analyser uses \<^verbatim>\<open>PRODUCT\<close> and \<^verbatim>\<open>HEALTH_SCORE\<close>). Once the literal
  has matched, the greedy \<^verbatim>\<open>\s*\<close> and \<^verbatim>\<open>(.*)\<close> cannot fail, so there is no
  backtracking: the white space is skipped, line breaks included, and the group runs to the
  next line terminator.
\<close>

definition extractValueAt :: "jsstring \<Rightarrow> jsstring \<Rightarrow> jsstring option" where
  "extractValueAt key s =
     (case matchLiteral (key @ lit '':'') s of
        None \<Rightarrow> None
      | Some r \<Rightarrow> Some (takeWhile (\<lambda>c. \<not> isLineTerminator c) (dropWhile isWhiteSpace r)))"

definition extractValue :: "jsstring \<Rightarrow> jsstring \<Rightarrow> jsstring option" where
  "extractValue text key =
     (case regexSearch (extractValueAt key) text of
        None \<Rightarrow> None
      | Some m1 \<Rightarrow> Some (trim m1))"

text \<open>
  \<^verbatim>\<open>parseInt(s)\<close> with no radix: leading white space is skipped, a sign is read, a
  \<^verbatim>\<open>0x\<close> prefix selects radix 16, and the longest run of digits is the value;
  \<^verbatim>\<open>NaN\<close> (here \<open>None\<close>) when there is no digit. The Number is modelled by the
  integer it denotes (exact below \<open>2^53\<close>).
\<close>

definition digitValue :: "jschar \<Rightarrow> int option" where
  "digitValue c =
     (if 0x30 \<le> c \<and> c \<le> 0x39 then Some (c - 0x30)
      else if 0x61 \<le> c \<and> c \<le> 0x7A then Some (c - 0x61 + 10)
      else if 0x41 \<le> c \<and> c \<le> 0x5A then Some (c - 0x41 + 10)
      else None)"

definition isDigit :: "int \<Rightarrow> jschar \<Rightarrow> bool" where
  "isDigit radix c = (case digitValue c of None \<Rightarrow> False | Some v \<Rightarrow> v < radix)"

definition digitsValue :: "int \<Rightarrow> jsstring \<Rightarrow> int" where
  "digitsValue radix ds = foldl (\<lambda>a c. a * radix + (case digitValue c of None \<Rightarrow> 0 | Some v \<Rightarrow> v)) 0 ds"

definition parseInt :: "jsstring \<Rightarrow> int option" where
  "parseInt input =
     (let s = dropWhile isWhiteSpace input;
          sign = (case s of c # _ \<Rightarrow> if c = 0x2D then - 1 else 1 | [] \<Rightarrow> (1::int));
          s = (case s of c # cs \<Rightarrow> if c = 0x2B \<or> c = 0x2D then cs else s | [] \<Rightarrow> s);
          hex = (case s of c # d # _ \<Rightarrow> c = 0x30 \<and> (d = 0x78 \<or> d = 0x58) | _ \<Rightarrow> False);
          radix = (if hex then 16 else 10);
          s = (if hex then drop 2 s else s);
          z = takeWhile (isDigit radix) s
      in if z = [] then None else Some (sign * digitsValue radix z))"

text \<open>
  \<^verbatim>\<open>/SUMMARY:\s*([\s\S]*?)(?=HEALTH_SCORE|FSSAI_NOTICE|LIST_START|$)/i\<close> and
  \<^verbatim>\<open>/FSSAI_NOTICE:\s*([\s\S]*?)(?=LIST_START|$)/i\<close>. The lazy group always finds the
  end of the text at the latest, so the greedy \<^verbatim>\<open>\s*\<close> is never given back.
\<close>

definition spanAt :: "jsstring \<Rightarrow> jsstring list \<Rightarrow> jsstring \<Rightarrow> jsstring option" where
  "spanAt key markers s =
     (case matchLiteral (key @ lit '':'') s of
        None \<Rightarrow> None
      | Some r \<Rightarrow> Some (lazyUntil markers (dropWhile isWhiteSpace r)))"

definition summaryMatch :: "jsstring \<Rightarrow> jsstring option" where
  "summaryMatch text =
     regexSearch
       (spanAt (lit ''SUMMARY'') [lit ''HEALTH_SCORE'', lit ''FSSAI_NOTICE'', lit ''LIST_START''])
       text"

definition fssaiMatch :: "jsstring \<Rightarrow> jsstring option" where
  "fssaiMatch text = regexSearch (spanAt (lit ''FSSAI_NOTICE'') [lit ''LIST_START'']) text"

text \<open>\<^verbatim>\<open>/LIST_START([\s\S]*?)LIST_END/i\<close>.\<close>

definition listAt :: "jsstring \<Rightarrow> jsstring option" where
  "listAt s =
     (case matchLiteral (lit ''LIST_START'') s of
        None \<Rightarrow> None
      | Some r \<Rightarrow> lazyTo (lit ''LIST_END'') r)"

definition listMatch :: "jsstring \<Rightarrow> jsstring option" where
  "listMatch text = regexSearch listAt text"

definition rows :: "jsstring \<Rightarrow> jsstring list" where
  "rows text = (case listMatch text of None \<Rightarrow> [] | Some m1 \<Rightarrow> split 0x0A (trim m1))"

text \<open>
  \<^verbatim>\<open>row.replace(/^[-*\<bullet>\d.]\s*/, '').trim()\<close>, the bullet being U+2022: one code unit
  of the class at the start of the row is removed, with the white space after it.
\<close>

definition isListMarker :: "jschar \<Rightarrow> bool" where
  "isListMarker c =
     (c = 0x2D \<or> c = 0x2A \<or> c = 0x2022 \<or> (0x30 \<le> c \<and> c \<le> 0x39) \<or> c = 0x2E)"

definition cleanRow :: "jsstring \<Rightarrow> jsstring" where
  "cleanRow row =
     trim (case row of
             [] \<Rightarrow> []
           | c # cs \<Rightarrow> if isListMarker c then dropWhile isWhiteSpace cs else row)"

definition parts :: "jsstring \<Rightarrow> jsstring list" where
  "parts row = map trim (split 0x7C (cleanRow row))"

definition classify :: "jsstring \<Rightarrow> status" where
  "classify statusRaw =
     (if includesStr statusRaw (lit ''harmful'') \<or> includesStr statusRaw (lit ''bad'') \<or>
         includesStr statusRaw (lit ''danger'') \<or> includesStr statusRaw (lit ''concern'')
      then Harmful
      else if includesStr statusRaw (lit ''healthy'') \<or> includesStr statusRaw (lit ''good'') \<or>
         includesStr statusRaw (lit ''safe'')
      then Healthy
      else Neutral)"

definition placeholder :: jsstring where
  "placeholder = lit ''Major component found in product label.''"

text \<open>The body of the loop over the rows: the ingredient pushed for a row, if any.\<close>

definition ingredientOf :: "jsstring \<Rightarrow> Ingredient option" where
  "ingredientOf row =
     (let ps = parts row in
      if 3 \<le> length ps then
        Some \<lparr> name = ps ! 0,
               quantity = orElse (index ps 1) (lit ''N/A''),
               status = classify (toLowerCase (ps ! 2)),
               description = orElse (index ps 3) placeholder \<rparr>
      else None)"

fun pushRows :: "Ingredient list \<Rightarrow> jsstring list \<Rightarrow> Ingredient list" where
  "pushRows acc [] = acc"
| "pushRows acc (row # rest) =
     (case ingredientOf row of
        None \<Rightarrow> pushRows acc rest
      | Some i \<Rightarrow> pushRows (acc @ [i]) rest)"

text \<open>The sources: the grounding chunks that have a \<^verbatim>\<open>web\<close> entry, in order.\<close>

definition groundingSources :: "GroundingChunk list \<Rightarrow> Source list" where
  "groundingSources chunks = List.map_filter web chunks"

definition noticeOf :: "jsstring \<Rightarrow> jsstring" where
  "noticeOf text =
     (case fssaiMatch text of
        None \<Rightarrow> []
      | Some m1 \<Rightarrow> if includesStr (toLowerCase m1) (lit ''none'') then [] else trim m1)"

definition scoreOf :: "jsstring \<Rightarrow> int" where
  "scoreOf text =
     (case parseInt (orElse (extractValue text (lit ''HEALTH_SCORE'')) (lit ''50'')) of
        None \<Rightarrow> 50
      | Some parsedScore \<Rightarrow> parsedScore)"

text \<open>
  The block from the grounding sources to \<^verbatim>\<open>setResult\<close>: \<open>Inr\<close> is the record given to
  \<^verbatim>\<open>setResult\<close>, \<open>Inl\<close> the error thrown instead.
\<close>

definition parse :: "jsstring \<Rightarrow> jsstring \<Rightarrow> GroundingChunk list \<Rightarrow> error + AnalysisResult" where
  "parse query text chunks =
     (let ingredients = pushRows [] (rows text) in
      if ingredients = [] then Inl ExtractionError
      else Inr \<lparr> productName = orElse (extractValue text (lit ''PRODUCT'')) query,
                 summary = (case summaryMatch text of
                              None \<Rightarrow> lit ''Analysis complete.''
                            | Some m1 \<Rightarrow> trim m1),
                 ingredients = ingredients,
                 sources = groundingSources chunks,
                 fssaiNotice = Some (noticeOf text),
                 healthScore = Some (scoreOf text) \<rparr>)"

text \<open>With the check of the response text that precedes it.\<close>

definition analyzeFood :: "jsstring \<Rightarrow> jsstring \<Rightarrow> GroundingChunk list \<Rightarrow> error + AnalysisResult" where
  "analyzeFood query text chunks =
     (if text = [] then Inl EmptyResponse else parse query text chunks)"

section \<open>Example reports\<close>

text \<open>The end-to-end example of the specification, and its header lines alone.\<close>

definition exampleReport :: jsstring where
  "exampleReport =
     lit ''PRODUCT: Test Snack\<newline>SUMMARY: High in sugar.\<newline>HEALTH_SCORE: 35\<newline>FSSAI_NOTICE: None\<newline>LIST_START\<newline>Sugar | 35g per 100g | harmful | Excess refined sugar\<newline>Rice Flour | 40% | healthy | Whole grain base\<newline>LIST_END''"

definition exampleHeader :: jsstring where
  "exampleHeader =
     lit ''PRODUCT: Test Snack\<newline>SUMMARY: High in sugar.\<newline>HEALTH_SCORE: 35\<newline>FSSAI_NOTICE: None\<newline>''"

section \<open>Facts about the string operations\<close>

lemma includesStr_sublist: "includesStr s w = sublist w s"
  by (induction s) (auto simp: sublist_Cons_right)

lemma split_not_Nil: "split d s \<noteq> []"
  by (induction s) (auto split: list.splits)

lemma length_split: "length (split d s) = Suc (count_list s d)"
  by (induction s) (auto split: list.splits simp: split_not_Nil)

lemma count_dropWhile: "\<not> P d \<Longrightarrow> count_list (dropWhile P s) d = count_list s d"
  by (induction s) auto

lemma count_trim: "\<not> isWhiteSpace d \<Longrightarrow> count_list (trim s) d = count_list s d"
  by (simp add: trim_def count_dropWhile)

lemma pipe_facts: "\<not> isWhiteSpace 0x7C" "\<not> isListMarker 0x7C"
  by (simp_all add: isWhiteSpace_def isListMarker_def)

lemma count_cleanRow: "count_list (cleanRow row) 0x7C = count_list row 0x7C"
  by (cases row) (auto simp: cleanRow_def count_trim count_dropWhile pipe_facts)

lemma length_parts: "length (parts row) = Suc (count_list row 0x7C)"
  by (simp add: parts_def length_split count_cleanRow)

lemma pushRows_map_filter: "pushRows acc rs = acc @ List.map_filter ingredientOf rs"
  by (induction rs arbitrary: acc) (auto split: option.splits)

lemma ingredientOf_None: "ingredientOf row = None \<longleftrightarrow> length (parts row) < 3"
  by (auto simp: ingredientOf_def Let_def)

lemma map_filter_Nil_iff: "List.map_filter f xs = [] \<longleftrightarrow> (\<forall>x \<in> set xs. f x = None)"
  by (induction xs) (auto split: option.splits)

lemma pushRows_Nil_iff: "pushRows [] rs = [] \<longleftrightarrow> (\<forall>row \<in> set rs. length (parts row) < 3)"
  by (simp add: pushRows_map_filter map_filter_Nil_iff ingredientOf_None)

lemma canonicalize_toLowerCaseUnit:
  "canonicalize a = canonicalize b \<longleftrightarrow> toLowerCaseUnit a = toLowerCaseUnit b"
  by (auto simp: canonicalize_def toLowerCaseUnit_def)

lemma matchLiteral_Some:
  "matchLiteral p s = Some r \<longleftrightarrow>
     (\<exists>k. s = k @ r \<and> length k = length p \<and> toLowerCase k = toLowerCase p)"
proof (induction p s rule: matchLiteral.induct)
  case (1 s)
  then show ?case by (auto simp: toLowerCase_def)
next
  case (2 p ps)
  then show ?case by (auto simp: toLowerCase_def)
next
  case (3 p ps c cs)
  show ?case
  proof
    assume "matchLiteral (p # ps) (c # cs) = Some r"
    then have eq: "canonicalize p = canonicalize c" and m: "matchLiteral ps cs = Some r"
      by (auto split: if_splits)
    from m 3 eq obtain k where "cs = k @ r" "length k = length ps" "toLowerCase k = toLowerCase ps"
      by auto
    with eq have "c # cs = (c # k) @ r \<and> length (c # k) = length (p # ps) \<and> toLowerCase (c # k) = toLowerCase (p # ps)"
      by (simp add: toLowerCase_def canonicalize_toLowerCaseUnit)
    then show "\<exists>k. c # cs = k @ r \<and> length k = length (p # ps) \<and> toLowerCase k = toLowerCase (p # ps)"
      by blast
  next
    assume "\<exists>k. c # cs = k @ r \<and> length k = length (p # ps) \<and> toLowerCase k = toLowerCase (p # ps)"
    then obtain k where k: "c # cs = k @ r" "length k = length (p # ps)" "toLowerCase k = toLowerCase (p # ps)"
      by blast
    then obtain k' where k': "k = c # k'" by (cases k) auto
    with k have eq: "canonicalize p = canonicalize c" and "cs = k' @ r" "length k' = length ps" "toLowerCase k' = toLowerCase ps"
      by (auto simp: toLowerCase_def canonicalize_toLowerCaseUnit)
    with 3 have "matchLiteral ps cs = Some r" by auto
    with eq show "matchLiteral (p # ps) (c # cs) = Some r" by simp
  qed
qed

lemma toLowerCase_append: "toLowerCase (a @ b) = toLowerCase a @ toLowerCase b"
  by (simp add: toLowerCase_def)

lemma toLowerCase_take: "toLowerCase (take n s) = take n (toLowerCase s)"
  by (simp add: toLowerCase_def take_map)

lemma length_toLowerCase: "length (toLowerCase s) = length s"
  by (simp add: toLowerCase_def)

lemma matchLiteral_None:
  "matchLiteral p s = None \<longleftrightarrow> \<not> prefix (toLowerCase p) (toLowerCase s)"
proof -
  have "(\<exists>r. matchLiteral p s = Some r) \<longleftrightarrow> prefix (toLowerCase p) (toLowerCase s)"
  proof
    assume "\<exists>r. matchLiteral p s = Some r"
    then obtain r k where "s = k @ r" "toLowerCase k = toLowerCase p"
      by (auto simp: matchLiteral_Some)
    then show "prefix (toLowerCase p) (toLowerCase s)"
      by (simp add: toLowerCase_append)
  next
    assume pre: "prefix (toLowerCase p) (toLowerCase s)"
    then have len: "length p \<le> length s"
      using prefix_length_le[OF pre] by (simp add: length_toLowerCase)
    from pre obtain z where "toLowerCase s = toLowerCase p @ z"
      by (auto simp: prefix_def)
    then have "take (length p) (toLowerCase s) = toLowerCase p"
      by (simp add: length_toLowerCase)
    then have "toLowerCase (take (length p) s) = toLowerCase p"
      by (simp add: toLowerCase_take)
    with len have "s = take (length p) s @ drop (length p) s \<and>
        length (take (length p) s) = length p \<and> toLowerCase (take (length p) s) = toLowerCase p"
      by simp
    then have "matchLiteral p s = Some (drop (length p) s)"
      unfolding matchLiteral_Some by blast
    then show "\<exists>r. matchLiteral p s = Some r" by blast
  qed
  then show ?thesis by (cases "matchLiteral p s") auto
qed

lemma regexSearch_None: "regexSearch m s = None \<longleftrightarrow> (\<forall>t. suffix t s \<longrightarrow> m t = None)"
  by (induction s) (auto simp: suffix_Cons split: option.splits)

lemma regexSearch_append:
  "(\<And>t. suffix t pre \<Longrightarrow> t \<noteq> [] \<Longrightarrow> m (t @ s) = None) \<Longrightarrow> regexSearch m (pre @ s) = regexSearch m s"
proof (induction pre)
  case Nil
  then show ?case by simp
next
  case (Cons c pre)
  have "m ((c # pre) @ s) = None" using Cons.prems[of "c # pre"] by simp
  moreover have "regexSearch m (pre @ s) = regexSearch m s"
    using Cons.prems by (intro Cons.IH) (auto simp: suffix_Cons)
  ultimately show ?case by simp
qed

lemma regexSearch_here: "m s = Some r \<Longrightarrow> regexSearch m s = Some r"
  by (cases s) auto

lemma regexSearch_no_literal:
  assumes "\<And>t. matchLiteral p t = None \<Longrightarrow> m t = None"
    and "\<not> sublist (toLowerCase p) (toLowerCase s)"
  shows "regexSearch m s = None"
proof -
  have "m t = None" if "suffix t s" for t
  proof -
    from that have "suffix (toLowerCase t) (toLowerCase s)"
      by (auto simp: suffix_def toLowerCase_append)
    with assms(2) have "\<not> prefix (toLowerCase p) (toLowerCase t)"
      by (auto simp: sublist_altdef')
    then show ?thesis by (simp add: assms(1) matchLiteral_None)
  qed
  then show ?thesis by (simp add: regexSearch_None)
qed

lemma regexSearch_literal_Some:
  assumes "\<And>t. m t = None \<Longrightarrow> matchLiteral p t = None"
    and "sublist (toLowerCase p) (toLowerCase s)"
  shows "regexSearch m s \<noteq> None"
proof
  assume none: "regexSearch m s = None"
  from assms(2) obtain a b where ab: "toLowerCase s = a @ toLowerCase p @ b"
    unfolding sublist_def by blast
  have "drop (length a) (toLowerCase s) = toLowerCase p @ b"
    unfolding ab by simp
  then have "toLowerCase (drop (length a) s) = toLowerCase p @ b"
    by (simp add: toLowerCase_def drop_map)
  then have 1: "matchLiteral p (drop (length a) s) \<noteq> None"
    by (simp add: matchLiteral_None)
  have "suffix (drop (length a) s) s" by (rule suffix_drop)
  with none have "m (drop (length a) s) = None"
    unfolding regexSearch_None by blast
  then have "matchLiteral p (drop (length a) s) = None" by (rule assms(1))
  with 1 show False by contradiction
qed

section \<open>The search for the ingredient table\<close>

lemma matchLiteral_self: "matchLiteral p (p @ r) = Some r"
  by (induction p) auto

lemma analyzeFood_parse:
  "analyzeFood query [] chunks = Inl EmptyResponse"
  "text \<noteq> [] \<Longrightarrow> analyzeFood query text chunks = parse query text chunks"
  by (simp_all add: analyzeFood_def)

lemma parse_Inl_iff:
  "parse query text chunks = Inl e \<longleftrightarrow> e = ExtractionError \<and> pushRows [] (rows text) = []"
  by (auto simp: parse_def Let_def)

lemma parse_Inr_ingredients:
  "parse query text chunks = Inr r \<Longrightarrow> ingredients r = pushRows [] (rows text) \<and> ingredients r \<noteq> []"
  by (auto simp: parse_def Let_def split: if_splits)

lemma listAt_no_start: "matchLiteral (lit ''LIST_START'') t = None \<Longrightarrow> listAt t = None"
  by (simp add: listAt_def)

lemma rows_no_start:
  "\<not> sublist (toLowerCase (lit ''LIST_START'')) (toLowerCase text) \<Longrightarrow> rows text = []"
  by (simp add: rows_def listMatch_def regexSearch_no_literal[OF listAt_no_start])

lemma lower_LIST_START:
  "toLowerCase (lit ''LIST_START'') = [108, 105, 115, 116, 95, 115, 116, 97, 114, 116]"
  by (simp add: lit_def toLowerCase_def toLowerCaseUnit_def)

lemma lower_list_start: "toLowerCase (lit ''LIST_START'') = lit ''list_start''"
  by (simp add: lit_def toLowerCase_def toLowerCaseUnit_def)

lemma LIST_START_no_border:
  assumes "0 < k" "k < 10"
  shows "toLowerCase (lit ''LIST_START'') ! k \<noteq> 108"
proof -
  from assms have "k = 1 \<or> k = 2 \<or> k = 3 \<or> k = 4 \<or> k = 5 \<or> k = 6 \<or> k = 7 \<or> k = 8 \<or> k = 9"
    by arith
  then show ?thesis
    unfolding lower_LIST_START by (elim disjE) simp_all
qed

lemma prefix_of_append_eq: "a @ b = x @ z \<Longrightarrow> length x \<le> length a \<Longrightarrow> prefix x a"
  by (auto simp: append_eq_append_conv2 prefix_def)

lemma listAt_straddle:
  assumes t: "t \<noteq> []"
    and no: "\<not> sublist (toLowerCase (lit ''LIST_START'')) (toLowerCase t)"
  shows "listAt (t @ lit ''LIST_START'' @ r) = None"
proof -
  let ?X = "toLowerCase (lit ''LIST_START'')"
  have lenX: "length ?X = 10" by (simp add: lower_LIST_START)
  have "\<not> prefix ?X (toLowerCase (t @ lit ''LIST_START'' @ r))"
  proof
    assume pre: "prefix ?X (toLowerCase (t @ lit ''LIST_START'' @ r))"
    then obtain z where z: "toLowerCase t @ ?X @ toLowerCase r = ?X @ z"
      by (auto simp: prefix_def toLowerCase_append)
    show False
    proof (cases "length t < 10")
      case True
      let ?k = "length t"
      have "(toLowerCase t @ ?X @ toLowerCase r) ! ?k = ?X ! 0"
        by (simp add: nth_append length_toLowerCase lower_LIST_START)
      moreover have "(?X @ z) ! ?k = ?X ! ?k"
        using True by (simp add: nth_append lenX)
      ultimately have "?X ! ?k = ?X ! 0" using z by simp
      moreover have "?X ! 0 = 108" by (simp add: lower_LIST_START)
      moreover have "?X ! ?k \<noteq> 108"
        using t True by (intro LIST_START_no_border) auto
      ultimately show False by simp
    next
      case False
      with lenX have "length ?X \<le> length t" by linarith
      then have "length ?X \<le> length (toLowerCase t)"
        by (simp only: length_toLowerCase[of t])
      with z have "prefix ?X (toLowerCase t)"
        by (rule prefix_of_append_eq)
      then have "sublist ?X (toLowerCase t)" by (rule prefix_imp_sublist)
      with no show False by contradiction
    qed
  qed
  then have "matchLiteral (lit ''LIST_START'') (t @ lit ''LIST_START'' @ r) = None"
    by (simp add: matchLiteral_None)
  then show ?thesis by (rule listAt_no_start)
qed

lemma lazyTo_here: "matchLiteral e s \<noteq> None \<Longrightarrow> lazyTo e s = Some []"
  by (cases s) auto

lemma lazyTo_self: "lazyTo e (e @ r) = Some []"
  by (rule lazyTo_here) (simp add: matchLiteral_self)

lemma sublist_lower_suffix:
  "suffix t pre \<Longrightarrow> sublist x (toLowerCase t) \<Longrightarrow> sublist x (toLowerCase pre)"
  by (auto simp: suffix_def toLowerCase_append sublist_append)

lemma listMatch_empty_table:
  assumes "\<not> sublist (toLowerCase (lit ''LIST_START'')) (toLowerCase pre)"
  shows "listMatch (pre @ lit ''LIST_START\<newline>LIST_END'' @ post) = Some [0x0A]"
proof -
  let ?s = "lit ''LIST_START'' @ 0x0A # lit ''LIST_END'' @ post"
  have split: "lit ''LIST_START\<newline>LIST_END'' @ post = ?s"
    by (simp add: lit_def)
  have "matchLiteral (lit ''LIST_END'') (0x0A # lit ''LIST_END'' @ post) = None"
    by (simp add: lit_def canonicalize_def)
  then have "lazyTo (lit ''LIST_END'') (0x0A # lit ''LIST_END'' @ post) = Some [0x0A]"
    by (simp add: lazyTo_self)
  then have here: "listAt ?s = Some [0x0A]"
    by (simp add: listAt_def matchLiteral_self)
  have "listAt (t @ ?s) = None" if "suffix t pre" "t \<noteq> []" for t
    using that assms by (intro listAt_straddle) (auto dest: sublist_lower_suffix)
  then have "regexSearch listAt (pre @ ?s) = regexSearch listAt ?s"
    by (rule regexSearch_append)
  with here show ?thesis
    by (simp add: listMatch_def split regexSearch_here)
qed

lemma rows_empty_table:
  "\<not> sublist (toLowerCase (lit ''LIST_START'')) (toLowerCase pre) \<Longrightarrow>
   rows (pre @ lit ''LIST_START\<newline>LIST_END'' @ post) = [[]]"
  by (simp add: rows_def listMatch_empty_table trim_def isWhiteSpace_def)

lemma few_fields: "length (parts row) < 3 \<longleftrightarrow> count_list row 0x7C < 2"
  by (auto simp: length_parts)

section \<open>The end-to-end example\<close>

text \<open>
  C2. On the end-to-end example the analyser succeeds, for every query and every list of
  grounding chunks: the product is \<^verbatim>\<open>Test Snack\<close>, the score 35, and there are exactly two
  ingredients, harmful and healthy in that order. The notice is not absent from the record:
  the field holds the empty string.
\<close>

theorem example_report_parsed:
  "parse query exampleReport chunks =
     Inr \<lparr> productName = lit ''Test Snack'',
           summary = lit ''High in sugar.'',
           ingredients =
             [\<lparr> name = lit ''Sugar'', quantity = lit ''35g per 100g'', status = Harmful,
                description = lit ''Excess refined sugar'' \<rparr>,
              \<lparr> name = lit ''Rice Flour'', quantity = lit ''40%'', status = Healthy,
                description = lit ''Whole grain base'' \<rparr>],
           sources = groundingSources chunks,
           fssaiNotice = Some [],
           healthScore = Some 35 \<rparr>"
  by code_simp

theorem example_report_notice_not_absent:
  "\<not> (\<exists>r. parse (lit ''Test Snack'') exampleReport [] = Inr r \<and>
          productName r = lit ''Test Snack'' \<and> healthScore r = Some 35 \<and>
          fssaiNotice r = None \<and> map status (ingredients r) = [Harmful, Healthy])"
proof -
  have "(case parse (lit ''Test Snack'') exampleReport [] of
           Inl e \<Rightarrow> False | Inr r \<Rightarrow> fssaiNotice r = Some [])"
    by code_simp
  then show ?thesis by (auto split: sum.splits)
qed

section \<open>The range of the score\<close>

text \<open>
  C4 (the code at the failing input). A report whose score line reads
  \<^verbatim>\<open>HEALTH_SCORE: 150\<close> is parsed with success and the score 150, outside the range
  0 to 100 that the comment on \<^verbatim>\<open>healthScore\<close> in \<^verbatim>\<open>AnalysisResult\<close> gives; a
  negative score is returned as well.
\<close>

theorem health_score_not_in_range:
  "(case parse (lit ''q'') (lit ''HEALTH_SCORE: 150\<newline>LIST_START\<newline>Sugar | 10g | harmful\<newline>LIST_END'') [] of
      Inl e \<Rightarrow> None | Inr r \<Rightarrow> healthScore r) = Some 150
   \<and> (case parse (lit ''q'') (lit ''HEALTH_SCORE: -5\<newline>LIST_START\<newline>Sugar | 10g | harmful\<newline>LIST_END'') [] of
      Inl e \<Rightarrow> None | Inr r \<Rightarrow> healthScore r) = Some (- 5)"
  by code_simp

section \<open>List markers\<close>

text \<open>
  C9 (the code at the failing input). The list-marker expression removes one code unit of
  its class, not a run of them: of the ordinal \<^verbatim>\<open>1.\<close> only the digit goes and the name
  keeps the dot, and of \<^verbatim>\<open>12.\<close> only the first digit goes. A dash or a bullet, being a
  single code unit, is removed whole.
\<close>

theorem ordinal_marker_residue:
  "map_option name (ingredientOf (lit ''1. Sugar | 10g | harmful | reason'')) = Some (lit ''. Sugar'')
   \<and> map_option name (ingredientOf (lit ''12. Sugar | 10g | harmful | reason'')) = Some (lit ''2. Sugar'')
   \<and> map_option name (ingredientOf (lit ''- Sugar | 10g | harmful | reason'')) = Some (lit ''Sugar'')
   \<and> map_option name (ingredientOf (0x2022 # lit '' Sugar | 10g | harmful | reason'')) = Some (lit ''Sugar'')"
  by code_simp

section \<open>Status classification\<close>

lemma sublist_toLowerCase: "sublist w s \<Longrightarrow> sublist (toLowerCase w) (toLowerCase s)"
  by (fastforce simp: sublist_def toLowerCase_append)

lemma classify_sublist:
  "classify t =
     (if sublist (lit ''harmful'') t \<or> sublist (lit ''bad'') t \<or>
         sublist (lit ''danger'') t \<or> sublist (lit ''concern'') t
      then Harmful
      else if sublist (lit ''healthy'') t \<or> sublist (lit ''good'') t \<or> sublist (lit ''safe'') t
      then Healthy
      else Neutral)"
  by (simp only: classify_def includesStr_sublist)

lemma lower_keywords:
  "toLowerCase (lit ''harmful'') = lit ''harmful''"
  "toLowerCase (lit ''Danger'') = lit ''danger''"
  by (simp_all add: lit_def toLowerCase_def toLowerCaseUnit_def)

text \<open>
  C3. The status of a row is \<open>classify\<close> of the lower-cased status text. It is harmful
  when the lower-cased text contains \<^verbatim>\<open>harmful\<close>, \<^verbatim>\<open>bad\<close>, \<^verbatim>\<open>danger\<close> or
  \<^verbatim>\<open>concern\<close>; otherwise healthy when it contains \<^verbatim>\<open>healthy\<close>, \<^verbatim>\<open>good\<close> or
  \<^verbatim>\<open>safe\<close>; otherwise neutral. So the harmful words win over the healthy ones, a text
  containing \<^verbatim>\<open>harmful\<close> or \<^verbatim>\<open>Danger\<close> is harmful, and a text with none of the
  seven words is neutral.
\<close>

theorem classify_by_keyword:
  "classify (toLowerCase s) =
     (if sublist (lit ''harmful'') (toLowerCase s) \<or> sublist (lit ''bad'') (toLowerCase s) \<or>
         sublist (lit ''danger'') (toLowerCase s) \<or> sublist (lit ''concern'') (toLowerCase s)
      then Harmful
      else if sublist (lit ''healthy'') (toLowerCase s) \<or> sublist (lit ''good'') (toLowerCase s) \<or>
         sublist (lit ''safe'') (toLowerCase s)
      then Healthy
      else Neutral)
   \<and> (sublist (lit ''harmful'') (toLowerCase s) \<and> sublist (lit ''safe'') (toLowerCase s) \<longrightarrow>
        classify (toLowerCase s) = Harmful)
   \<and> (sublist (lit ''harmful'') s \<longrightarrow> classify (toLowerCase s) = Harmful)
   \<and> (sublist (lit ''Danger'') s \<longrightarrow> classify (toLowerCase s) = Harmful)
   \<and> (\<not> list_ex (\<lambda>w. sublist (lit w) (toLowerCase s))
            [''harmful'', ''bad'', ''danger'', ''concern'', ''healthy'', ''good'', ''safe''] \<longrightarrow>
        classify (toLowerCase s) = Neutral)
   \<and> (ingredientOf row = Some i \<longrightarrow> status i = classify (toLowerCase (parts row ! 2)))"
proof (intro conjI impI)
  show "classify (toLowerCase s) =
     (if sublist (lit ''harmful'') (toLowerCase s) \<or> sublist (lit ''bad'') (toLowerCase s) \<or>
         sublist (lit ''danger'') (toLowerCase s) \<or> sublist (lit ''concern'') (toLowerCase s)
      then Harmful
      else if sublist (lit ''healthy'') (toLowerCase s) \<or> sublist (lit ''good'') (toLowerCase s) \<or>
         sublist (lit ''safe'') (toLowerCase s)
      then Healthy
      else Neutral)"
    by (rule classify_sublist)
next
  assume "sublist (lit ''harmful'') (toLowerCase s) \<and> sublist (lit ''safe'') (toLowerCase s)"
  then show "classify (toLowerCase s) = Harmful"
    by (simp add: classify_sublist)
next
  assume "sublist (lit ''harmful'') s"
  then have "sublist (lit ''harmful'') (toLowerCase s)"
    using sublist_toLowerCase lower_keywords(1) by fastforce
  then show "classify (toLowerCase s) = Harmful"
    by (simp add: classify_sublist)
next
  assume "sublist (lit ''Danger'') s"
  then have "sublist (lit ''danger'') (toLowerCase s)"
    using sublist_toLowerCase lower_keywords(2) by fastforce
  then show "classify (toLowerCase s) = Harmful"
    by (simp add: classify_sublist)
next
  assume "\<not> list_ex (\<lambda>w. sublist (lit w) (toLowerCase s))
            [''harmful'', ''bad'', ''danger'', ''concern'', ''healthy'', ''good'', ''safe'']"
  then show "classify (toLowerCase s) = Neutral"
    by (simp add: classify_sublist)
next
  assume "ingredientOf row = Some i"
  then show "status i = classify (toLowerCase (parts row ! 2))"
    by (auto simp: ingredientOf_def Let_def split: if_splits)
qed

theorem classify_by_keyword_witness:
  "sublist (lit ''harmful'') (toLowerCase (lit ''Harmful, not safe''))
   \<and> sublist (lit ''safe'') (toLowerCase (lit ''Harmful, not safe''))
   \<and> classify (toLowerCase (lit ''Harmful, not safe'')) = Harmful
   \<and> sublist (lit ''harmful'') (lit ''Potentially harmful'')
   \<and> classify (toLowerCase (lit ''Potentially harmful'')) = Harmful
   \<and> sublist (lit ''Danger'') (lit ''Danger to children'')
   \<and> classify (toLowerCase (lit ''Danger to children'')) = Harmful
   \<and> \<not> list_ex (\<lambda>w. sublist (lit w) (toLowerCase (lit ''Stabilizer'')))
            [''harmful'', ''bad'', ''danger'', ''concern'', ''healthy'', ''good'', ''safe'']
   \<and> classify (toLowerCase (lit ''Stabilizer'')) = Neutral
   \<and> ingredientOf (lit ''Salt | 2g | Considered Safe'')
        = Some \<lparr> name = lit ''Salt'', quantity = lit ''2g'', status = Healthy, description = placeholder \<rparr>"
proof -
  have a: "sublist (lit ''harmful'') (toLowerCase (lit ''Harmful, not safe''))
      \<and> sublist (lit ''safe'') (toLowerCase (lit ''Harmful, not safe''))"
    by code_simp
  have b: "sublist (lit ''harmful'') (lit ''Potentially harmful'')"
    by code_simp
  have c: "sublist (lit ''Danger'') (lit ''Danger to children'')"
    by code_simp
  have d: "\<not> list_ex (\<lambda>w. sublist (lit w) (toLowerCase (lit ''Stabilizer'')))
            [''harmful'', ''bad'', ''danger'', ''concern'', ''healthy'', ''good'', ''safe'']"
    by code_simp
  have e: "ingredientOf (lit ''Salt | 2g | Considered Safe'')
        = Some \<lparr> name = lit ''Salt'', quantity = lit ''2g'', status = Healthy, description = placeholder \<rparr>"
    by code_simp
  from a classify_by_keyword[of "lit ''Harmful, not safe''"]
  have 1: "classify (toLowerCase (lit ''Harmful, not safe'')) = Harmful" by blast
  from b classify_by_keyword[of "lit ''Potentially harmful''"]
  have 2: "classify (toLowerCase (lit ''Potentially harmful'')) = Harmful" by blast
  from c classify_by_keyword[of "lit ''Danger to children''"]
  have 3: "classify (toLowerCase (lit ''Danger to children'')) = Harmful" by blast
  from d classify_by_keyword[of "lit ''Stabilizer''"]
  have 4: "classify (toLowerCase (lit ''Stabilizer'')) = Neutral" by blast
  from a b c d e 1 2 3 4 show ?thesis by blast
qed

section \<open>Rows of the table\<close>

lemma index_nth: "index xs n = (if n < length xs then Some (xs ! n) else None)"
  by (induction xs n rule: index.induct) auto

lemma ingredientOf_Some:
  "ingredientOf row = Some i \<longleftrightarrow>
     3 \<le> length (parts row) \<and>
     i = \<lparr> name = parts row ! 0,
           quantity = (if parts row ! 1 = [] then lit ''N/A'' else parts row ! 1),
           status = classify (toLowerCase (parts row ! 2)),
           description = (if 3 < length (parts row) \<and> parts row ! 3 \<noteq> [] then parts row ! 3
                          else placeholder) \<rparr>"
  by (auto simp: ingredientOf_def Let_def orElse_def index_nth)

lemma placeholder_not_Nil: "placeholder \<noteq> []" "lit ''N/A'' \<noteq> []"
  by (simp_all add: placeholder_def lit_def)

text \<open>
  C5 (as amended). A line of the table is accepted exactly when the row, cleaned of its
  marker, splits on the pipe into at least three trimmed fields, that is when the line has
  at least two pipes; a line with fewer is skipped and the loop goes on. An accepted row
  gives field 0 as the name, field 1 as the quantity with \<^verbatim>\<open>N/A\<close> for an empty field,
  the classification of the lower-cased field 2 as the status, and field 3 as the
  description, with the placeholder when there is no fourth field or the fourth field is
  empty. A row of exactly three fields has a non-empty quantity and the placeholder
  description. The ingredients of a successful parse are those of the accepted rows, in
  the order of the rows.
\<close>

theorem row_field_mapping:
  "(ingredientOf row \<noteq> None \<longleftrightarrow> 3 \<le> length (parts row))
   \<and> (3 \<le> length (parts row) \<longleftrightarrow> 2 \<le> count_list row 0x7C)
   \<and> parts row = map trim (split 0x7C (cleanRow row))
   \<and> (ingredientOf row = None \<longrightarrow> pushRows acc (row # rest) = pushRows acc rest)
   \<and> (\<forall>i. ingredientOf row = Some i \<longrightarrow>
          name i = parts row ! 0
        \<and> quantity i = (if parts row ! 1 = [] then lit ''N/A'' else parts row ! 1)
        \<and> status i = classify (toLowerCase (parts row ! 2))
        \<and> description i =
            (if 3 < length (parts row) \<and> parts row ! 3 \<noteq> [] then parts row ! 3 else placeholder)
        \<and> (length (parts row) = 3 \<longrightarrow> quantity i \<noteq> [] \<and> description i = placeholder)
        \<and> pushRows acc (row # rest) = pushRows (acc @ [i]) rest)
   \<and> pushRows [] rs = List.map_filter ingredientOf rs
   \<and> (parse query text chunks = Inr r \<longrightarrow> ingredients r = List.map_filter ingredientOf (rows text))"
proof (intro conjI impI allI)
  show "ingredientOf row \<noteq> None \<longleftrightarrow> 3 \<le> length (parts row)"
    by (auto simp: ingredientOf_None)
  show "3 \<le> length (parts row) \<longleftrightarrow> 2 \<le> count_list row 0x7C"
    by (auto simp: length_parts)
  show "parts row = map trim (split 0x7C (cleanRow row))"
    by (rule parts_def)
  show "pushRows [] rs = List.map_filter ingredientOf rs"
    by (simp add: pushRows_map_filter)
next
  assume "ingredientOf row = None"
  then show "pushRows acc (row # rest) = pushRows acc rest" by simp
next
  fix i assume i: "ingredientOf row = Some i"
  then show "pushRows acc (row # rest) = pushRows (acc @ [i]) rest" by simp
  from i have len: "3 \<le> length (parts row)"
    and eq: "i = \<lparr> name = parts row ! 0,
           quantity = (if parts row ! 1 = [] then lit ''N/A'' else parts row ! 1),
           status = classify (toLowerCase (parts row ! 2)),
           description = (if 3 < length (parts row) \<and> parts row ! 3 \<noteq> [] then parts row ! 3
                          else placeholder) \<rparr>"
    by (simp_all add: ingredientOf_Some)
  show "name i = parts row ! 0" by (subst eq) simp
  show q: "quantity i = (if parts row ! 1 = [] then lit ''N/A'' else parts row ! 1)"
    by (subst eq) simp
  show "status i = classify (toLowerCase (parts row ! 2))" by (subst eq) simp
  show d: "description i =
            (if 3 < length (parts row) \<and> parts row ! 3 \<noteq> [] then parts row ! 3 else placeholder)"
    by (subst eq) simp
  show "quantity i \<noteq> []" if "length (parts row) = 3"
    using q by (simp add: placeholder_not_Nil)
  show "description i = placeholder" if "length (parts row) = 3"
    using d that by simp
next
  assume "parse query text chunks = Inr r"
  then show "ingredients r = List.map_filter ingredientOf (rows text)"
    by (simp add: parse_Inr_ingredients pushRows_map_filter)
qed

theorem row_field_mapping_witness:
  "ingredientOf (lit ''Salt | 2g'') = None
   \<and> pushRows [] [lit ''Salt | 2g'', lit ''Sugar |  | harmful''] = pushRows [] [lit ''Sugar |  | harmful'']
   \<and> parts (lit ''Sugar |  | harmful'') = [lit ''Sugar'', [], lit ''harmful'']
   \<and> ingredientOf (lit ''Sugar |  | harmful'')
       = Some \<lparr> name = lit ''Sugar'', quantity = lit ''N/A'', status = Harmful, description = placeholder \<rparr>
   \<and> pushRows [] [lit ''Sugar |  | harmful'']
       = [\<lparr> name = lit ''Sugar'', quantity = lit ''N/A'', status = Harmful, description = placeholder \<rparr>]
   \<and> map name (ingredients (projr (parse (lit ''q'') exampleReport []))) = [lit ''Sugar'', lit ''Rice Flour'']"
proof -
  let ?i = "\<lparr> name = lit ''Sugar'', quantity = lit ''N/A'', status = Harmful, description = placeholder \<rparr>"
  have n: "ingredientOf (lit ''Salt | 2g'') = None" by code_simp
  have p: "parts (lit ''Sugar |  | harmful'') = [lit ''Sugar'', [], lit ''harmful'']" by code_simp
  have s: "ingredientOf (lit ''Sugar |  | harmful'') = Some ?i" by code_simp
  have e: "parse (lit ''q'') exampleReport [] = Inr (projr (parse (lit ''q'') exampleReport []))"
    by code_simp
  have m: "map name (List.map_filter ingredientOf (rows exampleReport)) = [lit ''Sugar'', lit ''Rice Flour'']"
    by code_simp
  from n row_field_mapping[of "lit ''Salt | 2g''" "[]" "[lit ''Sugar |  | harmful'']"]
  have 1: "pushRows [] [lit ''Salt | 2g'', lit ''Sugar |  | harmful''] = pushRows [] [lit ''Sugar |  | harmful'']"
    by blast
  from s row_field_mapping[of "lit ''Sugar |  | harmful''" "[]" "[]"]
  have "pushRows [] [lit ''Sugar |  | harmful''] = pushRows ([] @ [?i]) []"
    by blast
  then have 2: "pushRows [] [lit ''Sugar |  | harmful''] = [?i]" by simp
  from e row_field_mapping[of _ _ _ _ "lit ''q''" exampleReport "[]" "projr (parse (lit ''q'') exampleReport [])"]
  have "ingredients (projr (parse (lit ''q'') exampleReport [])) = List.map_filter ingredientOf (rows exampleReport)"
    by blast
  with m have 3: "map name (ingredients (projr (parse (lit ''q'') exampleReport []))) = [lit ''Sugar'', lit ''Rice Flour'']"
    by simp
  from n 1 p s 2 3 show ?thesis by blast
qed

text \<open>
  C5 as first stated (field 3 is the description whenever there is a fourth field) fails on
  a row that ends in a pipe: it has a fourth field, the empty one, and the description is
  the placeholder.
\<close>

theorem empty_fourth_field_gets_placeholder:
  "length (parts (lit ''Salt | 2g | neutral |'')) = 4
   \<and> parts (lit ''Salt | 2g | neutral |'') ! 3 = []
   \<and> map_option description (ingredientOf (lit ''Salt | 2g | neutral |'')) = Some placeholder
   \<and> placeholder \<noteq> parts (lit ''Salt | 2g | neutral |'') ! 3"
  by code_simp

section \<open>Absent keys\<close>

lemma extractValueAt_None: "extractValueAt key t = None \<longleftrightarrow> matchLiteral (key @ lit '':'') t = None"
  by (simp add: extractValueAt_def split: option.splits)

lemma spanAt_None: "spanAt key ms t = None \<longleftrightarrow> matchLiteral (key @ lit '':'') t = None"
  by (simp add: spanAt_def split: option.splits)

lemma regexSearch_literal_iff:
  assumes "\<And>t. m t = None \<longleftrightarrow> matchLiteral p t = None"
  shows "regexSearch m s = None \<longleftrightarrow> \<not> sublist (toLowerCase p) (toLowerCase s)"
proof
  assume none: "regexSearch m s = None"
  show "\<not> sublist (toLowerCase p) (toLowerCase s)"
  proof
    assume "sublist (toLowerCase p) (toLowerCase s)"
    with assms have "regexSearch m s \<noteq> None"
      by (intro regexSearch_literal_Some[where p = p]) simp_all
    with none show False by contradiction
  qed
next
  assume "\<not> sublist (toLowerCase p) (toLowerCase s)"
  with assms show "regexSearch m s = None"
    by (intro regexSearch_no_literal[where p = p]) simp_all
qed

lemma extractValue_None:
  "extractValue text key = None \<longleftrightarrow> \<not> sublist (toLowerCase (key @ lit '':'')) (toLowerCase text)"
proof -
  have "regexSearch (extractValueAt key) text = None \<longleftrightarrow>
      \<not> sublist (toLowerCase (key @ lit '':'')) (toLowerCase text)"
    by (rule regexSearch_literal_iff) (rule extractValueAt_None)
  then show ?thesis
    by (cases "regexSearch (extractValueAt key) text") (simp_all add: extractValue_def)
qed

lemma fssaiMatch_None:
  "fssaiMatch text = None \<longleftrightarrow> \<not> sublist (lit ''fssai_notice:'') (toLowerCase text)"
proof -
  have l: "toLowerCase (lit ''FSSAI_NOTICE'' @ lit '':'') = lit ''fssai_notice:''"
    by (simp add: lit_def toLowerCase_def toLowerCaseUnit_def)
  have "regexSearch (spanAt (lit ''FSSAI_NOTICE'') [lit ''LIST_START'']) text = None \<longleftrightarrow>
      \<not> sublist (toLowerCase (lit ''FSSAI_NOTICE'' @ lit '':'')) (toLowerCase text)"
    by (rule regexSearch_literal_iff) (rule spanAt_None)
  then show ?thesis
    by (simp only: fssaiMatch_def l)
qed

lemma parse_Inr_fields:
  "parse query text chunks = Inr r \<Longrightarrow>
     fssaiNotice r = Some (noticeOf text) \<and> healthScore r = Some (scoreOf text) \<and>
     productName r = orElse (extractValue text (lit ''PRODUCT'')) query \<and>
     sources r = groundingSources chunks"
  by (auto simp: parse_def Let_def split: if_splits)

lemma parseInt_50: "parseInt (lit ''50'') = Some 50"
  by code_simp

lemma scoreOf_fallback:
  "extractValue text (lit ''HEALTH_SCORE'') = None \<Longrightarrow> scoreOf text = 50"
  "extractValue text (lit ''HEALTH_SCORE'') = Some v \<Longrightarrow> parseInt v = None \<Longrightarrow> scoreOf text = 50"
  by (simp_all add: scoreOf_def orElse_def parseInt_50)

section \<open>The notice\<close>

lemma noticeOf_cases:
  "fssaiMatch text = None \<Longrightarrow> noticeOf text = []"
  "fssaiMatch text = Some m \<Longrightarrow> sublist (lit ''none'') (toLowerCase m) \<Longrightarrow> noticeOf text = []"
  "fssaiMatch text = Some m \<Longrightarrow> \<not> sublist (lit ''none'') (toLowerCase m) \<Longrightarrow> noticeOf text = trim m"
  by (simp_all add: noticeOf_def includesStr_sublist)




text \<open>
  C10. On every successful parse the \<^verbatim>\<open>fssaiNotice\<close> field of the record is defined, and
  when no notice is recovered (no \<^verbatim>\<open>FSSAI_NOTICE:\<close> in the text, or a captured text that
  contains \<^verbatim>\<open>none\<close> in any letter case) it holds the empty string.
\<close>

theorem notice_never_undefined:
  assumes "parse query text chunks = Inr r"
  shows "fssaiNotice r \<noteq> None
   \<and> (\<not> sublist (lit ''fssai_notice:'') (toLowerCase text) \<longrightarrow> fssaiNotice r = Some [])
   \<and> ((\<exists>m. fssaiMatch text = Some m \<and> sublist (lit ''none'') (toLowerCase m)) \<longrightarrow>
        fssaiNotice r = Some [])"
  using assms by (auto simp: parse_Inr_fields noticeOf_cases fssaiMatch_None[symmetric])

theorem notice_never_undefined_witness:
  "parse (lit ''q'') (lit ''LIST_START\<newline>Candy | 5g | harmful\<newline>LIST_END'') []
     = Inr (projr (parse (lit ''q'') (lit ''LIST_START\<newline>Candy | 5g | harmful\<newline>LIST_END'') []))
   \<and> \<not> sublist (lit ''fssai_notice:'') (toLowerCase (lit ''LIST_START\<newline>Candy | 5g | harmful\<newline>LIST_END''))
   \<and> fssaiNotice (projr (parse (lit ''q'') (lit ''LIST_START\<newline>Candy | 5g | harmful\<newline>LIST_END'') [])) = Some []
   \<and> parse (lit ''q'') (lit ''fssai_notice: NONE found\<newline>LIST_START\<newline>Candy | 5g | harmful\<newline>LIST_END'') []
     = Inr (projr (parse (lit ''q'') (lit ''fssai_notice: NONE found\<newline>LIST_START\<newline>Candy | 5g | harmful\<newline>LIST_END'') []))
   \<and> fssaiMatch (lit ''fssai_notice: NONE found\<newline>LIST_START\<newline>Candy | 5g | harmful\<newline>LIST_END'')
     = Some (lit ''NONE found\<newline>'')
   \<and> sublist (lit ''none'') (toLowerCase (lit ''NONE found\<newline>''))
   \<and> fssaiNotice (projr (parse (lit ''q'') (lit ''fssai_notice: NONE found\<newline>LIST_START\<newline>Candy | 5g | harmful\<newline>LIST_END'') [])) = Some []"
proof -
  let ?t = "lit ''LIST_START\<newline>Candy | 5g | harmful\<newline>LIST_END''"
  let ?u = "lit ''fssai_notice: NONE found\<newline>LIST_START\<newline>Candy | 5g | harmful\<newline>LIST_END''"
  have p: "parse (lit ''q'') ?t [] = Inr (projr (parse (lit ''q'') ?t []))" by code_simp
  have a: "\<not> sublist (lit ''fssai_notice:'') (toLowerCase ?t)" by code_simp
  have q: "parse (lit ''q'') ?u [] = Inr (projr (parse (lit ''q'') ?u []))" by code_simp
  have m: "fssaiMatch ?u = Some (lit ''NONE found\<newline>'')" by code_simp
  have s: "sublist (lit ''none'') (toLowerCase (lit ''NONE found\<newline>''))" by code_simp
  from notice_never_undefined[OF p] a
  have 1: "fssaiNotice (projr (parse (lit ''q'') ?t [])) = Some []" by blast
  from notice_never_undefined[OF q] m s
  have 2: "fssaiNotice (projr (parse (lit ''q'') ?u [])) = Some []" by blast
  from p a 1 q m s 2 show ?thesis by blast
qed

section \<open>The occurrence of a key that supplies its value\<close>

lemma extractValueAt_first:
  assumes k: "toLowerCase k = toLowerCase (key @ lit '':'')"
    and first: "\<not> sublist (toLowerCase (key @ lit '':'')) (toLowerCase (pre @ butlast k))"
  shows "regexSearch (extractValueAt key) (pre @ k @ s) =
           Some (takeWhile (\<lambda>c. \<not> isLineTerminator c) (dropWhile isWhiteSpace s))"
proof -
  let ?X = "toLowerCase (key @ lit '':'')"
  have len: "length k = length (key @ lit '':'')"
    using arg_cong[OF k, of length] by (simp only: length_toLowerCase)
  then have kne: "k \<noteq> []" by (auto simp: lit_def)
  have "matchLiteral (key @ lit '':'') (k @ s) = Some s"
    unfolding matchLiteral_Some using k len by blast
  then have here: "extractValueAt key (k @ s) =
      Some (takeWhile (\<lambda>c. \<not> isLineTerminator c) (dropWhile isWhiteSpace s))"
    by (simp add: extractValueAt_def)
  have "extractValueAt key (t @ k @ s) = None" if suf: "suffix t pre" and tne: "t \<noteq> []" for t
  proof -
    have "\<not> prefix ?X (toLowerCase (t @ k @ s))"
    proof
      assume "prefix ?X (toLowerCase (t @ k @ s))"
      then obtain z where "toLowerCase (t @ k @ s) = ?X @ z"
        by (auto simp: prefix_def)
      moreover have "t @ k @ s = (t @ butlast k) @ (last k # s)"
        using kne by simp
      ultimately have z: "toLowerCase (t @ butlast k) @ toLowerCase (last k # s) = ?X @ z"
        by (simp only: toLowerCase_append)
      have "length ?X \<le> length (toLowerCase (t @ butlast k))"
        using tne kne len by (cases t) (simp_all add: length_toLowerCase)
      with z have "prefix ?X (toLowerCase (t @ butlast k))"
        by (rule prefix_of_append_eq)
      then have "sublist ?X (toLowerCase (t @ butlast k))"
        by (rule prefix_imp_sublist)
      moreover have "suffix (t @ butlast k) (pre @ butlast k)"
        using suf by (auto simp: suffix_def)
      ultimately have "sublist ?X (toLowerCase (pre @ butlast k))"
        by (rule sublist_lower_suffix[rotated])
      with first show False by contradiction
    qed
    then show ?thesis
      by (simp add: extractValueAt_None matchLiteral_None)
  qed
  then have "regexSearch (extractValueAt key) (pre @ k @ s) = regexSearch (extractValueAt key) (k @ s)"
    by (rule regexSearch_append)
  with here show ?thesis by (simp add: regexSearch_here)
qed

text \<open>
  C8 (as amended). The value extracted for a key is null exactly when \<^verbatim>\<open>KEY:\<close> occurs
  nowhere in the text, in any letter case. Otherwise it comes from the first occurrence of
  \<^verbatim>\<open>KEY:\<close> anywhere in the text, at the start of a line or not: the white space after
  the colon is skipped, line breaks included, and what follows up to the next line
  terminator is returned trimmed. The product name is this value for \<^verbatim>\<open>PRODUCT\<close>, or
  the query when it is null or empty; the score is \<^verbatim>\<open>parseInt\<close> of this value for
  \<^verbatim>\<open>HEALTH_SCORE\<close>.
\<close>

theorem extractValue_first_occurrence:
  "(extractValue text key = None \<longleftrightarrow>
      \<not> sublist (toLowerCase (key @ lit '':'')) (toLowerCase text))
   \<and> (toLowerCase k = toLowerCase (key @ lit '':'') \<and>
       \<not> sublist (toLowerCase (key @ lit '':'')) (toLowerCase (pre @ butlast k)) \<longrightarrow>
       extractValue (pre @ k @ s) key =
         Some (trim (takeWhile (\<lambda>c. \<not> isLineTerminator c) (dropWhile isWhiteSpace s))))
   \<and> (parse query text chunks = Inr r \<longrightarrow>
       productName r = orElse (extractValue text (lit ''PRODUCT'')) query \<and>
       healthScore r = Some (scoreOf text))"
proof (intro conjI impI)
  show "extractValue text key = None \<longleftrightarrow>
      \<not> sublist (toLowerCase (key @ lit '':'')) (toLowerCase text)"
    by (rule extractValue_None)
next
  assume "toLowerCase k = toLowerCase (key @ lit '':'') \<and>
       \<not> sublist (toLowerCase (key @ lit '':'')) (toLowerCase (pre @ butlast k))"
  then show "extractValue (pre @ k @ s) key =
         Some (trim (takeWhile (\<lambda>c. \<not> isLineTerminator c) (dropWhile isWhiteSpace s)))"
    by (simp add: extractValue_def extractValueAt_first)
next
  assume "parse query text chunks = Inr r"
  then show "productName r = orElse (extractValue text (lit ''PRODUCT'')) query"
    and "healthScore r = Some (scoreOf text)"
    by (simp_all add: parse_Inr_fields)
qed

theorem extractValue_first_occurrence_witness:
  "toLowerCase (lit ''Product:'') = toLowerCase (lit ''PRODUCT'' @ lit '':'')
   \<and> \<not> sublist (toLowerCase (lit ''PRODUCT'' @ lit '':'')) (toLowerCase (lit ''Label of by'' @ butlast (lit ''Product:'')))
   \<and> extractValue (lit ''Label of by'' @ lit ''Product:'' @ lit ''  \<newline> Oat Bran \<newline>PRODUCT: Oats'') (lit ''PRODUCT'')
       = Some (lit ''Oat Bran'')
   \<and> parse (lit ''q'') exampleReport [] = Inr (projr (parse (lit ''q'') exampleReport []))
   \<and> productName (projr (parse (lit ''q'') exampleReport [])) = lit ''Test Snack''
   \<and> healthScore (projr (parse (lit ''q'') exampleReport [])) = Some 35"
proof -
  have a: "toLowerCase (lit ''Product:'') = toLowerCase (lit ''PRODUCT'' @ lit '':'')"
    by code_simp
  have b: "\<not> sublist (toLowerCase (lit ''PRODUCT'' @ lit '':''))
      (toLowerCase (lit ''Label of by'' @ butlast (lit ''Product:'')))"
    by code_simp
  have c: "trim (takeWhile (\<lambda>c. \<not> isLineTerminator c) (dropWhile isWhiteSpace (lit ''  \<newline> Oat Bran \<newline>PRODUCT: Oats'')))
      = lit ''Oat Bran''"
    by code_simp
  have p: "parse (lit ''q'') exampleReport [] = Inr (projr (parse (lit ''q'') exampleReport []))"
    by code_simp
  have d: "orElse (extractValue exampleReport (lit ''PRODUCT'')) (lit ''q'') = lit ''Test Snack''"
    by code_simp
  have e: "scoreOf exampleReport = 35"
    by code_simp
  from a b extractValue_first_occurrence[of _ "lit ''PRODUCT''" "lit ''Product:''" "lit ''Label of by''"
      "lit ''  \<newline> Oat Bran \<newline>PRODUCT: Oats''"]
  have "extractValue (lit ''Label of by'' @ lit ''Product:'' @ lit ''  \<newline> Oat Bran \<newline>PRODUCT: Oats'') (lit ''PRODUCT'')
      = Some (trim (takeWhile (\<lambda>c. \<not> isLineTerminator c) (dropWhile isWhiteSpace (lit ''  \<newline> Oat Bran \<newline>PRODUCT: Oats''))))"
    by blast
  with c have 1: "extractValue (lit ''Label of by'' @ lit ''Product:'' @ lit ''  \<newline> Oat Bran \<newline>PRODUCT: Oats'') (lit ''PRODUCT'')
      = Some (lit ''Oat Bran'')"
    by simp
  from p extractValue_first_occurrence[of exampleReport _ _ _ _ "lit ''q''" "[]" "projr (parse (lit ''q'') exampleReport [])"]
  have "productName (projr (parse (lit ''q'') exampleReport [])) = orElse (extractValue exampleReport (lit ''PRODUCT'')) (lit ''q'')"
    and "healthScore (projr (parse (lit ''q'') exampleReport [])) = Some (scoreOf exampleReport)"
    by blast+
  with d e have 2: "productName (projr (parse (lit ''q'') exampleReport [])) = lit ''Test Snack''"
    and 3: "healthScore (projr (parse (lit ''q'') exampleReport [])) = Some 35"
    by simp_all
  from a b 1 p 2 3 show ?thesis by blast
qed

text \<open>
  C8 as first stated (only a key at the start of a line counts, and the value is the rest
  of that line) fails: a key that ends a longer word supplies the value although a line
  further down starts with the key, a key in the middle of a line supplies the value, and
  a key with nothing after it on its line takes its value from the next line.
\<close>

theorem key_is_not_line_anchored:
  "extractValue (lit ''BYPRODUCT: Bran\<newline>PRODUCT: Oats'') (lit ''PRODUCT'') = Some (lit ''Bran'')
   \<and> extractValue (lit ''Our PRODUCT: Oats'') (lit ''PRODUCT'') = Some (lit ''Oats'')
   \<and> extractValue (lit ''PRODUCT:\<newline>SUMMARY: Fine.'') (lit ''PRODUCT'') = Some (lit ''SUMMARY: Fine.'')
   \<and> (case parse (lit ''q'') (lit ''BYPRODUCT: Bran\<newline>PRODUCT: Oats\<newline>LIST_START\<newline>Oats | 5g | healthy\<newline>LIST_END'') [] of
         Inl e \<Rightarrow> None | Inr r \<Rightarrow> Some (productName r)) = Some (lit ''Bran'')"
  by code_simp

section \<open>The table between its markers\<close>

lemma matchLiteral_before_first:
  assumes k: "toLowerCase k = toLowerCase p"
    and tne: "t \<noteq> []"
    and first: "\<not> sublist (toLowerCase p) (toLowerCase (t @ butlast k))"
  shows "matchLiteral p (t @ k @ s) = None"
proof -
  let ?X = "toLowerCase p"
  have len: "length k = length p"
    using arg_cong[OF k, of length] by (simp only: length_toLowerCase)
  have kne: "k \<noteq> []"
  proof
    assume "k = []"
    with len have "p = []" by simp
    with first show False by (simp add: toLowerCase_def)
  qed
  have "\<not> prefix ?X (toLowerCase (t @ k @ s))"
  proof
    assume "prefix ?X (toLowerCase (t @ k @ s))"
    then obtain z where "toLowerCase (t @ k @ s) = ?X @ z"
      by (auto simp: prefix_def)
    moreover have "t @ k @ s = (t @ butlast k) @ (last k # s)"
      using kne by simp
    ultimately have z: "toLowerCase (t @ butlast k) @ toLowerCase (last k # s) = ?X @ z"
      by (simp only: toLowerCase_append)
    have "length ?X \<le> length (toLowerCase (t @ butlast k))"
      using tne kne len by (cases t) (simp_all add: length_toLowerCase)
    with z have "prefix ?X (toLowerCase (t @ butlast k))"
      by (rule prefix_of_append_eq)
    then have "sublist ?X (toLowerCase (t @ butlast k))"
      by (rule prefix_imp_sublist)
    with first show False by contradiction
  qed
  then show ?thesis by (simp add: matchLiteral_None)
qed

lemma lazyTo_None: "lazyTo e s = None \<longleftrightarrow> \<not> sublist (toLowerCase e) (toLowerCase s)"
proof (induction s)
  case Nil
  show ?case by (simp add: matchLiteral_None toLowerCase_def)
next
  case (Cons c cs)
  have "sublist (toLowerCase e) (toLowerCase (c # cs)) \<longleftrightarrow>
      prefix (toLowerCase e) (toLowerCase (c # cs)) \<or> sublist (toLowerCase e) (toLowerCase cs)"
    by (simp add: toLowerCase_def sublist_Cons_right)
  with Cons show ?case
    by (simp add: matchLiteral_None)
qed

lemma lazyTo_first:
  assumes le: "toLowerCase le = toLowerCase e"
    and first: "\<not> sublist (toLowerCase e) (toLowerCase (body @ butlast le))"
  shows "lazyTo e (body @ le @ post) = Some body"
  using first
proof (induction body)
  case Nil
  have len: "length le = length e"
    using arg_cong[OF le, of length] by (simp only: length_toLowerCase)
  have "matchLiteral e (le @ post) = Some post"
    unfolding matchLiteral_Some using le len by blast
  then show ?case by (simp add: lazyTo_here)
next
  case (Cons c b)
  from Cons.prems have no: "\<not> sublist (toLowerCase e) (toLowerCase (b @ butlast le))"
    by (simp add: toLowerCase_def sublist_Cons_right)
  have "matchLiteral e ((c # b) @ le @ post) = None"
  proof -
    have "\<not> prefix (toLowerCase e) (toLowerCase ((c # b) @ le @ post))"
    proof
      assume "prefix (toLowerCase e) (toLowerCase ((c # b) @ le @ post))"
      then have "matchLiteral e ((c # b) @ le @ post) \<noteq> None"
        by (simp add: matchLiteral_None)
      moreover have "matchLiteral e ((c # b) @ le @ post) = None"
        using le _ Cons.prems by (rule matchLiteral_before_first) simp
      ultimately show False by contradiction
    qed
    then show ?thesis by (simp add: matchLiteral_None)
  qed
  with Cons.IH[OF no] show ?case by simp
qed

lemma matchLiteral_suffix: "matchLiteral p t = Some r \<Longrightarrow> suffix r t \<and> length t = length p + length r"
  by (auto simp: matchLiteral_Some suffix_def)

lemma suffix_of_append: "suffix r (a @ b) \<Longrightarrow> length r \<le> length b \<Longrightarrow> suffix r b"
  by (auto simp: suffix_append)

lemma lower_LIST_END: "toLowerCase (lit ''LIST_END'') = lit ''list_end''"
  by (simp add: lit_def toLowerCase_def toLowerCaseUnit_def)

lemma listMatch_first:
  assumes ls: "toLowerCase ls = toLowerCase (lit ''LIST_START'')"
    and first: "\<not> sublist (toLowerCase (lit ''LIST_START'')) (toLowerCase (pre @ butlast ls))"
    and le: "toLowerCase le = toLowerCase (lit ''LIST_END'')"
    and nole: "\<not> sublist (toLowerCase (lit ''LIST_END'')) (toLowerCase (body @ butlast le))"
  shows "listMatch (pre @ ls @ body @ le @ post) = Some body"
proof -
  let ?rest = "body @ le @ post"
  have len: "length ls = length (lit ''LIST_START'')"
    using arg_cong[OF ls, of length] by (simp only: length_toLowerCase)
  have "matchLiteral (lit ''LIST_START'') (ls @ ?rest) = Some ?rest"
    unfolding matchLiteral_Some using ls len by blast
  moreover have "lazyTo (lit ''LIST_END'') ?rest = Some body"
    using le nole by (rule lazyTo_first)
  ultimately have here: "listAt (ls @ ?rest) = Some body"
    by (simp add: listAt_def)
  have "listAt (t @ ls @ ?rest) = None" if suf: "suffix t pre" and tne: "t \<noteq> []" for t
  proof -
    have "suffix (t @ butlast ls) (pre @ butlast ls)"
      using suf by (auto simp: suffix_def)
    then have "\<not> sublist (toLowerCase (lit ''LIST_START'')) (toLowerCase (t @ butlast ls))"
      using first sublist_lower_suffix by blast
    with ls tne have "matchLiteral (lit ''LIST_START'') (t @ ls @ ?rest) = None"
      by (rule matchLiteral_before_first)
    then show ?thesis by (rule listAt_no_start)
  qed
  then have "regexSearch listAt (pre @ ls @ ?rest) = regexSearch listAt (ls @ ?rest)"
    by (rule regexSearch_append)
  with here show ?thesis
    by (simp add: listMatch_def regexSearch_here)
qed

lemma listMatch_no_end:
  assumes ls: "toLowerCase ls = toLowerCase (lit ''LIST_START'')"
    and first: "\<not> sublist (toLowerCase (lit ''LIST_START'')) (toLowerCase (pre @ butlast ls))"
    and noend: "\<not> sublist (toLowerCase (lit ''LIST_END'')) (toLowerCase rest)"
  shows "listMatch (pre @ ls @ rest) = None"
proof -
  have len: "length ls = length (lit ''LIST_START'')"
    using arg_cong[OF ls, of length] by (simp only: length_toLowerCase)
  have "listAt (t @ ls @ rest) = None" if suf: "suffix t pre" and tne: "t \<noteq> []" for t
  proof -
    have "suffix (t @ butlast ls) (pre @ butlast ls)"
      using suf by (auto simp: suffix_def)
    then have "\<not> sublist (toLowerCase (lit ''LIST_START'')) (toLowerCase (t @ butlast ls))"
      using first sublist_lower_suffix by blast
    with ls tne have "matchLiteral (lit ''LIST_START'') (t @ ls @ rest) = None"
      by (rule matchLiteral_before_first)
    then show ?thesis by (rule listAt_no_start)
  qed
  then have red: "regexSearch listAt (pre @ ls @ rest) = regexSearch listAt (ls @ rest)"
    by (rule regexSearch_append)
  have "listAt t = None" if suf: "suffix t (ls @ rest)" for t
  proof (cases "matchLiteral (lit ''LIST_START'') t")
    case None
    then show ?thesis by (rule listAt_no_start)
  next
    case (Some r)
    then have sr: "suffix r t" and lt: "length t = length (lit ''LIST_START'') + length r"
      by (simp_all add: matchLiteral_suffix)
    from sr suf have "suffix r (ls @ rest)"
      by (rule suffix_order.trans)
    moreover have "length r \<le> length rest"
      using suffix_length_le[OF suf] lt len by simp
    ultimately have "suffix r rest" by (rule suffix_of_append)
    then have "\<not> sublist (toLowerCase (lit ''LIST_END'')) (toLowerCase r)"
      using noend sublist_lower_suffix by blast
    then have "lazyTo (lit ''LIST_END'') r = None"
      by (simp add: lazyTo_None)
    with Some show ?thesis by (simp add: listAt_def)
  qed
  then have "regexSearch listAt (ls @ rest) = None"
    by (simp add: regexSearch_None)
  with red show ?thesis by (simp add: listMatch_def)
qed

lemma split_hd_prefix: "prefix (hd (split d s)) s"
  by (induction s) (auto split: list.splits)

lemma split_line_sublist: "l \<in> set (split d s) \<Longrightarrow> sublist l s"
proof (induction s arbitrary: l)
  case Nil
  then show ?case by simp
next
  case (Cons c cs)
  show ?case
  proof (cases "c = d")
    case True
    with Cons.prems have "l = [] \<or> l \<in> set (split d cs)" by simp
    then show ?thesis
      using Cons.IH by (auto simp: sublist_Cons_right)
  next
    case False
    obtain x xs where sp: "split d cs = x # xs"
      using split_not_Nil[of d cs] by (cases "split d cs") auto
    with False Cons.prems have "l = c # x \<or> l \<in> set xs" by simp
    then show ?thesis
    proof
      assume "l = c # x"
      moreover have "prefix x cs" using split_hd_prefix[of d cs] sp by simp
      ultimately show ?thesis by (simp add: sublist_Cons_right)
    next
      assume "l \<in> set xs"
      with sp have "l \<in> set (split d cs)" by simp
      then show ?thesis using Cons.IH by (simp add: sublist_Cons_right)
    qed
  qed
qed

lemma split_line_no_sep: "l \<in> set (split d s) \<Longrightarrow> d \<notin> set l"
  by (induction s arbitrary: l) (auto split: if_splits list.splits)

lemma split_no_sep_append:
  "d \<notin> set l \<Longrightarrow> split d (l @ b) = (l @ hd (split d b)) # tl (split d b)"
  by (induction l) (auto simp: split_not_Nil split: list.splits)

lemma split_contains:
  "d \<notin> set l \<Longrightarrow> \<exists>line \<in> set (split d (a @ l @ b)). sublist l line"
proof (induction a)
  case Nil
  then show ?case by (simp add: split_no_sep_append)
next
  case (Cons c a)
  then obtain line where line: "line \<in> set (split d (a @ l @ b))" "sublist l line"
    by blast
  obtain x xs where sp: "split d (a @ l @ b) = x # xs"
    using split_not_Nil[of d "a @ l @ b"] by (cases "split d (a @ l @ b)") auto
  show ?case
  proof (cases "c = d")
    case True
    with line show ?thesis by auto
  next
    case False
    from line sp have "line = x \<or> line \<in> set xs" by simp
    then show ?thesis
    proof
      assume "line = x"
      with line(2) have "sublist l (c # x)" by (simp add: sublist_Cons_right)
      with False sp show ?thesis by simp
    next
      assume "line \<in> set xs"
      with False sp line(2) show ?thesis by auto
    qed
  qed
qed

lemma count_two_decomp: "2 \<le> count_list l x \<longleftrightarrow> (\<exists>a m b. l = a @ x # m @ x # b)"
proof
  assume c: "2 \<le> count_list l x"
  then have "x \<in> set l" by (metis count_notin not_numeral_le_zero)
  then obtain a r where l: "l = a @ x # r" "x \<notin> set a"
    by (meson split_list_first)
  with c have "1 \<le> count_list r x" by simp
  then have "x \<in> set r" by (metis count_notin not_one_le_zero)
  then obtain m b where "r = m @ x # b" by (meson split_list)
  with l show "\<exists>a m b. l = a @ x # m @ x # b" by blast
next
  assume "\<exists>a m b. l = a @ x # m @ x # b"
  then show "2 \<le> count_list l x" by auto
qed

lemma line_with_two:
  assumes "x \<noteq> d"
  shows "(\<exists>line \<in> set (split d s). 2 \<le> count_list line x) \<longleftrightarrow>
         (\<exists>a m b. s = a @ x # m @ x # b \<and> d \<notin> set m)"
proof
  assume "\<exists>line \<in> set (split d s). 2 \<le> count_list line x"
  then obtain line where line: "line \<in> set (split d s)" "2 \<le> count_list line x" by blast
  from line(2) obtain a m b where d: "line = a @ x # m @ x # b"
    unfolding count_two_decomp by blast
  from line(1) have "d \<notin> set line" by (rule split_line_no_sep)
  with d have m: "d \<notin> set m" by simp
  from line(1) have "sublist line s" by (rule split_line_sublist)
  then obtain p q where "s = p @ line @ q" by (auto simp: sublist_def)
  with d have "s = (p @ a) @ x # m @ x # (b @ q)" by simp
  with m show "\<exists>a m b. s = a @ x # m @ x # b \<and> d \<notin> set m" by blast
next
  assume "\<exists>a m b. s = a @ x # m @ x # b \<and> d \<notin> set m"
  then obtain a m b where s: "s = a @ (x # m @ [x]) @ b" and m: "d \<notin> set m" by auto
  from m assms have "d \<notin> set (x # m @ [x])" by auto
  then obtain line where "line \<in> set (split d (a @ (x # m @ [x]) @ b))" "sublist (x # m @ [x]) line"
    using split_contains by blast
  moreover from this(2) obtain p q where "line = p @ (x # m @ [x]) @ q"
    by (auto simp: sublist_def)
  then have "2 \<le> count_list line x" by simp
  ultimately show "\<exists>line \<in> set (split d s). 2 \<le> count_list line x"
    using s by blast
qed

lemma trim_decomp: "\<exists>p q. s = p @ trim s @ q"
proof -
  let ?u = "dropWhile isWhiteSpace s"
  have "s = takeWhile isWhiteSpace s @ ?u" by simp
  moreover have "?u = rev (dropWhile isWhiteSpace (rev ?u)) @ rev (takeWhile isWhiteSpace (rev ?u))"
    by (metis rev_append rev_rev_ident takeWhile_dropWhile_id)
  ultimately have "s = takeWhile isWhiteSpace s @ trim s @ rev (takeWhile isWhiteSpace (rev ?u))"
    by (simp add: trim_def)
  then show ?thesis by blast
qed

lemma trim_keeps:
  assumes "\<not> isWhiteSpace x"
  shows "trim (a @ x # m @ x # b) =
         dropWhile isWhiteSpace a @ x # m @ x # rev (dropWhile isWhiteSpace (rev b))"
proof -
  have "dropWhile isWhiteSpace (a @ x # m @ x # b) = dropWhile isWhiteSpace a @ x # m @ x # b"
    using assms by (simp add: dropWhile_append3)
  moreover have "rev (dropWhile isWhiteSpace a @ x # m @ x # b) =
      rev b @ x # (rev m @ x # rev (dropWhile isWhiteSpace a))"
    by simp
  moreover have "dropWhile isWhiteSpace (rev b @ x # (rev m @ x # rev (dropWhile isWhiteSpace a))) =
      dropWhile isWhiteSpace (rev b) @ x # (rev m @ x # rev (dropWhile isWhiteSpace a))"
    using assms by (rule dropWhile_append3)
  ultimately show ?thesis
    by (simp add: trim_def)
qed

lemma trim_two:
  assumes "\<not> isWhiteSpace x"
  shows "(\<exists>a m b. trim s = a @ x # m @ x # b \<and> d \<notin> set m) \<longleftrightarrow>
         (\<exists>a m b. s = a @ x # m @ x # b \<and> d \<notin> set m)"
proof
  assume "\<exists>a m b. trim s = a @ x # m @ x # b \<and> d \<notin> set m"
  then obtain a m b where t: "trim s = a @ x # m @ x # b" and m: "d \<notin> set m" by blast
  obtain p q where "s = p @ trim s @ q" using trim_decomp by blast
  with t have "s = (p @ a) @ x # m @ x # (b @ q)" by simp
  with m show "\<exists>a m b. s = a @ x # m @ x # b \<and> d \<notin> set m" by blast
next
  assume "\<exists>a m b. s = a @ x # m @ x # b \<and> d \<notin> set m"
  then obtain a m b where s: "s = a @ x # m @ x # b" and m: "d \<notin> set m" by blast
  from s have "trim s = dropWhile isWhiteSpace a @ x # m @ x # rev (dropWhile isWhiteSpace (rev b))"
    using assms by (simp add: trim_keeps)
  with m show "\<exists>a m b. trim s = a @ x # m @ x # b \<and> d \<notin> set m" by blast
qed

lemma body_has_row:
  "(\<exists>line \<in> set (split 0x0A (trim body)). 2 \<le> count_list line 0x7C) \<longleftrightarrow>
   (\<exists>a m b. body = a @ 0x7C # m @ 0x7C # b \<and> 0x0A \<notin> set m)"
proof -
  have "(0x7C :: int) \<noteq> 0x0A" by simp
  then have "(\<exists>line \<in> set (split 0x0A (trim body)). 2 \<le> count_list line 0x7C) \<longleftrightarrow>
      (\<exists>a m b. trim body = a @ 0x7C # m @ 0x7C # b \<and> 0x0A \<notin> set m)"
    by (rule line_with_two)
  also have "\<dots> \<longleftrightarrow> (\<exists>a m b. body = a @ 0x7C # m @ 0x7C # b \<and> 0x0A \<notin> set m)"
    using pipe_facts(1) by (rule trim_two)
  finally show ?thesis .
qed

lemma rows_first:
  assumes "toLowerCase ls = lit ''list_start''"
    and "\<not> sublist (lit ''list_start'') (toLowerCase (before @ butlast ls))"
    and "toLowerCase le = lit ''list_end''"
    and "\<not> sublist (lit ''list_end'') (toLowerCase (body @ butlast le))"
  shows "rows (before @ ls @ body @ le @ after) = split 0x0A (trim body)"
proof -
  have "listMatch (before @ ls @ body @ le @ after) = Some body"
    by (rule listMatch_first[unfolded lower_list_start lower_LIST_END, OF assms])
  then show ?thesis by (simp add: rows_def)
qed

lemma rows_no_end:
  assumes "toLowerCase ls = lit ''list_start''"
    and "\<not> sublist (lit ''list_start'') (toLowerCase (before @ butlast ls))"
    and "\<not> sublist (lit ''list_end'') (toLowerCase rest)"
  shows "rows (before @ ls @ rest) = []"
proof -
  have "listMatch (before @ ls @ rest) = None"
    by (rule listMatch_no_end[unfolded lower_list_start lower_LIST_END, OF assms])
  then show ?thesis by (simp add: rows_def)
qed

lemma parse_Inl_rows:
  "parse query text chunks = Inl ExtractionError \<longleftrightarrow>
     \<not> (\<exists>line \<in> set (rows text). 2 \<le> count_list line 0x7C)"
proof -
  have "parse query text chunks = Inl ExtractionError \<longleftrightarrow>
      (\<forall>row \<in> set (rows text). count_list row 0x7C < 2)"
    by (simp only: parse_Inl_iff pushRows_Nil_iff few_fields) simp
  then show ?thesis by (auto simp: not_le)
qed

lemma parse_table_text:
  assumes "toLowerCase ls = lit ''list_start''"
    and "\<not> sublist (lit ''list_start'') (toLowerCase (before @ butlast ls))"
    and "toLowerCase le = lit ''list_end''"
    and "\<not> sublist (lit ''list_end'') (toLowerCase (body @ butlast le))"
  shows "parse query (before @ ls @ body @ le @ after) chunks = Inl ExtractionError \<longleftrightarrow>
         \<not> (\<exists>a m b. body = a @ 0x7C # m @ 0x7C # b \<and> 0x0A \<notin> set m)"
  by (simp only: parse_Inl_rows rows_first[OF assms] body_has_row)

lemma parse_table_success:
  assumes "toLowerCase ls = lit ''list_start''"
    and "\<not> sublist (lit ''list_start'') (toLowerCase (before @ butlast ls))"
    and "toLowerCase le = lit ''list_end''"
    and "\<not> sublist (lit ''list_end'') (toLowerCase (body @ butlast le))"
    and "\<exists>a m b. body = a @ 0x7C # m @ 0x7C # b \<and> 0x0A \<notin> set m"
  shows "\<exists>r. parse query (before @ ls @ body @ le @ after) chunks = Inr r \<and>
             ingredients r = List.map_filter ingredientOf (split 0x0A (trim body)) \<and>
             ingredients r \<noteq> []"
proof -
  let ?t = "before @ ls @ body @ le @ after"
  have "parse query ?t chunks \<noteq> Inl ExtractionError"
    using assms(5) by (simp only: parse_table_text[OF assms(1-4)]) simp
  then obtain r where r: "parse query ?t chunks = Inr r"
    by (cases "parse query ?t chunks") (auto simp: parse_Inl_iff)
  then have "ingredients r = pushRows [] (rows ?t)" and "ingredients r \<noteq> []"
    using parse_Inr_ingredients[of query ?t chunks r] by blast+
  then have "ingredients r = List.map_filter ingredientOf (split 0x0A (trim body))"
    by (simp add: rows_first[OF assms(1-4)] pushRows_map_filter)
  with r \<open>ingredients r \<noteq> []\<close> show ?thesis by blast
qed

lemma parse_no_end:
  assumes "toLowerCase ls = lit ''list_start''"
    and "\<not> sublist (lit ''list_start'') (toLowerCase (before @ butlast ls))"
    and "\<not> sublist (lit ''list_end'') (toLowerCase rest)"
  shows "parse query (before @ ls @ rest) chunks = Inl ExtractionError"
  by (simp add: parse_Inl_iff rows_no_end[OF assms])

lemma parse_no_start:
  "\<not> sublist (lit ''list_start'') (toLowerCase text) \<Longrightarrow>
   parse query text chunks = Inl ExtractionError"
  by (simp add: parse_Inl_iff rows_no_start lower_list_start)

lemma parse_empty_table:
  assumes "\<not> sublist (lit ''list_start'') (toLowerCase pre)"
  shows "parse query (pre @ lit ''LIST_START\<newline>LIST_END'' @ post) chunks = Inl ExtractionError"
proof -
  from assms have "rows (pre @ lit ''LIST_START\<newline>LIST_END'' @ post) = [[]]"
    by (simp add: rows_empty_table lower_list_start)
  then have "pushRows [] (rows (pre @ lit ''LIST_START\<newline>LIST_END'' @ post)) = []"
    by (simp only: pushRows_Nil_iff few_fields) simp
  then show ?thesis by (simp add: parse_Inl_iff)
qed

lemma parse_all_or_nothing:
  "parse query text chunks = Inl ExtractionError \<or>
   (\<exists>r. parse query text chunks = Inr r \<and> ingredients r \<noteq> [])"
  by (cases "parse query text chunks") (auto simp: parse_Inl_iff dest: parse_Inr_ingredients)

text \<open>
  C1. \<open>parse\<close> throws, and then the extraction error, exactly when no row of the table is
  accepted. On the text: let the first \<^verbatim>\<open>LIST_START\<close> of the text (in any letter case)
  be followed by \<open>body\<close> and then by the first \<^verbatim>\<open>LIST_END\<close> after it; then the rows
  are the lines of the trimmed \<open>body\<close>, and the parse fails exactly when no line of
  \<open>body\<close> has two pipes (three fields), that is when \<open>body\<close> has no two pipes without a
  line feed between them; otherwise it succeeds with the ingredients of the accepted lines.
  A text without \<^verbatim>\<open>LIST_START\<close> fails, a text with no \<^verbatim>\<open>LIST_END\<close> after its first
  \<^verbatim>\<open>LIST_START\<close> fails, and so does a text whose first \<^verbatim>\<open>LIST_START\<close> opens the
  empty table \<^verbatim>\<open>LIST_START\nLIST_END\<close>, whatever precedes the table (the header fields,
  say) and whatever follows it. The outcome is either the error alone or a record with at
  least one ingredient: nothing of the header fields is returned with the error.
\<close>

theorem parse_fails_iff_no_row_accepted:
  "(parse query text chunks = Inl ExtractionError \<longleftrightarrow>
      (\<forall>row \<in> set (rows text). length (parts row) < 3))
   \<and> (parse query text chunks = Inl ExtractionError \<longleftrightarrow>
      (\<forall>row \<in> set (rows text). count_list row 0x7C < 2))
   \<and> (parse query text chunks = Inl ExtractionError \<or>
      (\<exists>r. parse query text chunks = Inr r \<and> ingredients r \<noteq> []))
   \<and> (\<not> sublist (lit ''list_start'') (toLowerCase text) \<longrightarrow>
      parse query text chunks = Inl ExtractionError)
   \<and> (\<not> sublist (lit ''list_start'') (toLowerCase pre) \<longrightarrow>
      parse query (pre @ lit ''LIST_START\<newline>LIST_END'' @ post) chunks = Inl ExtractionError)
   \<and> (toLowerCase ls = lit ''list_start'' \<and>
       \<not> sublist (lit ''list_start'') (toLowerCase (before @ butlast ls)) \<and>
       toLowerCase le = lit ''list_end'' \<and>
       \<not> sublist (lit ''list_end'') (toLowerCase (body @ butlast le)) \<longrightarrow>
         rows (before @ ls @ body @ le @ after) = split 0x0A (trim body)
       \<and> (parse query (before @ ls @ body @ le @ after) chunks = Inl ExtractionError \<longleftrightarrow>
            \<not> (\<exists>a m b. body = a @ 0x7C # m @ 0x7C # b \<and> 0x0A \<notin> set m))
       \<and> ((\<exists>a m b. body = a @ 0x7C # m @ 0x7C # b \<and> 0x0A \<notin> set m) \<longrightarrow>
            (\<exists>r. parse query (before @ ls @ body @ le @ after) chunks = Inr r \<and>
                 ingredients r = List.map_filter ingredientOf (split 0x0A (trim body)) \<and>
                 ingredients r \<noteq> [])))
   \<and> (toLowerCase ls = lit ''list_start'' \<and>
       \<not> sublist (lit ''list_start'') (toLowerCase (before @ butlast ls)) \<and>
       \<not> sublist (lit ''list_end'') (toLowerCase rest) \<longrightarrow>
         parse query (before @ ls @ rest) chunks = Inl ExtractionError)"
proof (intro conjI impI)
  show "parse query text chunks = Inl ExtractionError \<longleftrightarrow>
      (\<forall>row \<in> set (rows text). length (parts row) < 3)"
    by (simp add: parse_Inl_iff pushRows_Nil_iff)
  then show "parse query text chunks = Inl ExtractionError \<longleftrightarrow>
      (\<forall>row \<in> set (rows text). count_list row 0x7C < 2)"
    by (simp only: few_fields)
  show "parse query text chunks = Inl ExtractionError \<or>
      (\<exists>r. parse query text chunks = Inr r \<and> ingredients r \<noteq> [])"
    by (rule parse_all_or_nothing)
next
  assume "\<not> sublist (lit ''list_start'') (toLowerCase text)"
  then show "parse query text chunks = Inl ExtractionError"
    by (rule parse_no_start)
next
  assume "\<not> sublist (lit ''list_start'') (toLowerCase pre)"
  then show "parse query (pre @ lit ''LIST_START\<newline>LIST_END'' @ post) chunks = Inl ExtractionError"
    by (rule parse_empty_table)
next
  assume h: "toLowerCase ls = lit ''list_start'' \<and>
       \<not> sublist (lit ''list_start'') (toLowerCase (before @ butlast ls)) \<and>
       toLowerCase le = lit ''list_end'' \<and>
       \<not> sublist (lit ''list_end'') (toLowerCase (body @ butlast le))"
  then have h1: "toLowerCase ls = lit ''list_start''"
    and h2: "\<not> sublist (lit ''list_start'') (toLowerCase (before @ butlast ls))"
    and h3: "toLowerCase le = lit ''list_end''"
    and h4: "\<not> sublist (lit ''list_end'') (toLowerCase (body @ butlast le))"
    by blast+
  show "rows (before @ ls @ body @ le @ after) = split 0x0A (trim body)"
    using h1 h2 h3 h4 by (rule rows_first)
  show "parse query (before @ ls @ body @ le @ after) chunks = Inl ExtractionError \<longleftrightarrow>
            \<not> (\<exists>a m b. body = a @ 0x7C # m @ 0x7C # b \<and> 0x0A \<notin> set m)"
    using h1 h2 h3 h4 by (rule parse_table_text)
  show "\<exists>r. parse query (before @ ls @ body @ le @ after) chunks = Inr r \<and>
                 ingredients r = List.map_filter ingredientOf (split 0x0A (trim body)) \<and>
                 ingredients r \<noteq> []"
    if "\<exists>a m b. body = a @ 0x7C # m @ 0x7C # b \<and> 0x0A \<notin> set m"
    using h1 h2 h3 h4 that by (rule parse_table_success)
next
  assume "toLowerCase ls = lit ''list_start'' \<and>
       \<not> sublist (lit ''list_start'') (toLowerCase (before @ butlast ls)) \<and>
       \<not> sublist (lit ''list_end'') (toLowerCase rest)"
  then have h1: "toLowerCase ls = lit ''list_start''"
    and h2: "\<not> sublist (lit ''list_start'') (toLowerCase (before @ butlast ls))"
    and h3: "\<not> sublist (lit ''list_end'') (toLowerCase rest)"
    by blast+
  then show "parse query (before @ ls @ rest) chunks = Inl ExtractionError"
    by (rule parse_no_end)
qed

theorem parse_fails_iff_no_row_accepted_witness:
  "\<not> sublist (lit ''list_start'') (toLowerCase exampleHeader)
   \<and> extractValue exampleHeader (lit ''PRODUCT'') = Some (lit ''Test Snack'')
   \<and> parse (lit ''q'') exampleHeader [] = Inl ExtractionError
   \<and> parse (lit ''q'') (exampleHeader @ lit ''LIST_START\<newline>LIST_END'' @ []) [] = Inl ExtractionError
   \<and> rows (lit ''LIST_START\<newline>Sugar | 10g\<newline>LIST_END'') = [lit ''Sugar | 10g'']
   \<and> parse (lit ''q'') (lit ''LIST_START\<newline>Sugar | 10g\<newline>LIST_END'') [] = Inl ExtractionError
   \<and> exampleReport =
        exampleHeader @ lit ''LIST_START'' @
        lit ''\<newline>Sugar | 35g per 100g | harmful | Excess refined sugar\<newline>Rice Flour | 40% | healthy | Whole grain base\<newline>'' @
        lit ''LIST_END'' @ []
   \<and> toLowerCase (lit ''LIST_START'') = lit ''list_start''
   \<and> \<not> sublist (lit ''list_start'') (toLowerCase (exampleHeader @ butlast (lit ''LIST_START'')))
   \<and> toLowerCase (lit ''LIST_END'') = lit ''list_end''
   \<and> \<not> sublist (lit ''list_end'')
        (toLowerCase (lit ''\<newline>Sugar | 35g per 100g | harmful | Excess refined sugar\<newline>Rice Flour | 40% | healthy | Whole grain base\<newline>'' @ butlast (lit ''LIST_END'')))
   \<and> lit ''\<newline>Sugar | 35g per 100g | harmful | Excess refined sugar\<newline>Rice Flour | 40% | healthy | Whole grain base\<newline>''
        = lit ''\<newline>Sugar '' @ 0x7C # lit '' 35g per 100g '' @ 0x7C #
          lit '' harmful | Excess refined sugar\<newline>Rice Flour | 40% | healthy | Whole grain base\<newline>''
   \<and> 0x0A \<notin> set (lit '' 35g per 100g '')
   \<and> (\<exists>r. parse (lit ''q'') exampleReport [] = Inr r \<and>
          ingredients r = List.map_filter ingredientOf
            (split 0x0A (trim (lit ''\<newline>Sugar | 35g per 100g | harmful | Excess refined sugar\<newline>Rice Flour | 40% | healthy | Whole grain base\<newline>'')))
          \<and> ingredients r \<noteq> [])
   \<and> toLowerCase (lit ''List_Start'') = lit ''list_start''
   \<and> \<not> sublist (lit ''list_start'') (toLowerCase (exampleHeader @ butlast (lit ''List_Start'')))
   \<and> \<not> sublist (lit ''list_end'') (toLowerCase (lit ''\<newline>Sugar | 10g | harmful''))
   \<and> parse (lit ''q'') (exampleHeader @ lit ''List_Start'' @ lit ''\<newline>Sugar | 10g | harmful'') [] = Inl ExtractionError"
proof -
  let ?body = "lit ''\<newline>Sugar | 35g per 100g | harmful | Excess refined sugar\<newline>Rice Flour | 40% | healthy | Whole grain base\<newline>''"
  have h: "\<not> sublist (lit ''list_start'') (toLowerCase exampleHeader)"
    by code_simp
  have p: "extractValue exampleHeader (lit ''PRODUCT'') = Some (lit ''Test Snack'')"
    by code_simp
  have r: "rows (lit ''LIST_START\<newline>Sugar | 10g\<newline>LIST_END'') = [lit ''Sugar | 10g'']"
    by code_simp
  have c: "count_list (lit ''Sugar | 10g'') 0x7C < 2"
    by code_simp
  have e: "exampleReport = exampleHeader @ lit ''LIST_START'' @ ?body @ lit ''LIST_END'' @ []"
    by code_simp
  have s1: "toLowerCase (lit ''LIST_START'') = lit ''list_start''"
    by code_simp
  have s2: "\<not> sublist (lit ''list_start'') (toLowerCase (exampleHeader @ butlast (lit ''LIST_START'')))"
    by code_simp
  have s3: "toLowerCase (lit ''LIST_END'') = lit ''list_end''"
    by code_simp
  have s4: "\<not> sublist (lit ''list_end'') (toLowerCase (?body @ butlast (lit ''LIST_END'')))"
    by code_simp
  have b1: "?body = lit ''\<newline>Sugar '' @ 0x7C # lit '' 35g per 100g '' @ 0x7C #
          lit '' harmful | Excess refined sugar\<newline>Rice Flour | 40% | healthy | Whole grain base\<newline>''"
    by code_simp
  have b2: "0x0A \<notin> set (lit '' 35g per 100g '')"
    by code_simp
  have n1: "toLowerCase (lit ''List_Start'') = lit ''list_start''"
    by code_simp
  have n2: "\<not> sublist (lit ''list_start'') (toLowerCase (exampleHeader @ butlast (lit ''List_Start'')))"
    by code_simp
  have n3: "\<not> sublist (lit ''list_end'') (toLowerCase (lit ''\<newline>Sugar | 10g | harmful''))"
    by code_simp
  note t1 = parse_fails_iff_no_row_accepted
    [of "lit ''q''" exampleHeader "[]" exampleHeader "[]" "lit ''LIST_START''" exampleHeader
        "lit ''LIST_END''" ?body "[]" "lit ''\<newline>Sugar | 10g | harmful''"]
  note t2 = parse_fails_iff_no_row_accepted
    [of "lit ''q''" "lit ''LIST_START\<newline>Sugar | 10g\<newline>LIST_END''" "[]" "[]" "[]"
        "lit ''List_Start''" exampleHeader "[]" "[]" "[]" "lit ''\<newline>Sugar | 10g | harmful''"]
  from t1 h have f1: "parse (lit ''q'') exampleHeader [] = Inl ExtractionError"
    and f2: "parse (lit ''q'') (exampleHeader @ lit ''LIST_START\<newline>LIST_END'' @ []) [] = Inl ExtractionError"
    by blast+
  from t2 r c
  have f3: "parse (lit ''q'') (lit ''LIST_START\<newline>Sugar | 10g\<newline>LIST_END'') [] = Inl ExtractionError"
    by simp
  have ex: "\<exists>a m b. ?body = a @ 0x7C # m @ 0x7C # b \<and> 0x0A \<notin> set m"
    using b1 b2 by blast
  from t1 s1 s2 s3 s4 ex
  have "\<exists>r. parse (lit ''q'') (exampleHeader @ lit ''LIST_START'' @ ?body @ lit ''LIST_END'' @ []) [] = Inr r \<and>
          ingredients r = List.map_filter ingredientOf (split 0x0A (trim ?body)) \<and> ingredients r \<noteq> []"
    by blast
  then have f4: "\<exists>r. parse (lit ''q'') exampleReport [] = Inr r \<and>
          ingredients r = List.map_filter ingredientOf (split 0x0A (trim ?body)) \<and> ingredients r \<noteq> []"
    by (simp only: e[symmetric])
  from t2 n1 n2 n3
  have f5: "parse (lit ''q'') (exampleHeader @ lit ''List_Start'' @ lit ''\<newline>Sugar | 10g | harmful'') [] = Inl ExtractionError"
    by blast
  from h p f1 f2 r f3 e s1 s2 s3 s4 b1 b2 f4 n1 n2 n3 f5 show ?thesis
    by (intro conjI)
qed

section \<open>The score fallback\<close>

lemma lower_HEALTH_SCORE: "toLowerCase (lit ''HEALTH_SCORE'' @ lit '':'') = lit ''health_score:''"
  by (simp add: lit_def toLowerCase_def toLowerCaseUnit_def)

lemma scoreOf_absent:
  "\<not> sublist (lit ''health_score:'') (toLowerCase text) \<Longrightarrow> scoreOf text = 50"
  by (simp add: scoreOf_fallback(1) extractValue_None lower_HEALTH_SCORE)

lemma scoreOf_first:
  assumes "toLowerCase k = lit ''health_score:''"
    and "\<not> sublist (lit ''health_score:'') (toLowerCase (pre @ butlast k))"
  shows "scoreOf (pre @ k @ s) =
           (let v = trim (takeWhile (\<lambda>c. \<not> isLineTerminator c) (dropWhile isWhiteSpace s))
            in if v = [] then 50 else case parseInt v of None \<Rightarrow> 50 | Some n \<Rightarrow> n)"
proof -
  have "regexSearch (extractValueAt (lit ''HEALTH_SCORE'')) (pre @ k @ s) =
      Some (takeWhile (\<lambda>c. \<not> isLineTerminator c) (dropWhile isWhiteSpace s))"
    by (rule extractValueAt_first[of k "lit ''HEALTH_SCORE''", unfolded lower_HEALTH_SCORE, OF assms])
  then have "extractValue (pre @ k @ s) (lit ''HEALTH_SCORE'') =
      Some (trim (takeWhile (\<lambda>c. \<not> isLineTerminator c) (dropWhile isWhiteSpace s)))"
    by (simp add: extractValue_def)
  then show ?thesis
    by (simp add: scoreOf_def orElse_def parseInt_50 Let_def)
qed

lemma parseInt_Nil: "parseInt [] = None"
  by (simp add: parseInt_def)

lemma parseInt_no_digit:
  assumes "\<not> isWhiteSpace c" "c \<noteq> 0x2B" "c \<noteq> 0x2D" "\<not> (0x30 \<le> c \<and> c \<le> 0x39)"
  shows "parseInt (c # cs) = None"
proof -
  have d: "\<not> isDigit 10 c"
    using assms(4) by (auto simp: isDigit_def digitValue_def)
  have h: "c \<noteq> 0x30" using assms(4) by auto
  show ?thesis
    using assms(1-3) d h by (cases cs) (simp_all add: parseInt_def Let_def)
qed

text \<open>
  C6 (as amended). A successful parse returns the score 50 when the text has no
  \<^verbatim>\<open>HEALTH_SCORE:\<close> in any letter case, and when the value of the first
  \<^verbatim>\<open>HEALTH_SCORE:\<close> anywhere in the text is empty or does not parse as a number. The
  value is what follows that first occurrence, with the white space after the colon skipped
  (line breaks included), up to the next line terminator, trimmed; in general the score is
  \<^verbatim>\<open>parseInt\<close> of this value, or 50 when the value is empty or not a number. The empty
  string is not a number, nor is a value that starts with anything but white space, a sign
  or a digit, \<^verbatim>\<open>abc\<close> for one.
\<close>

theorem health_score_fallback:
  assumes "parse query text chunks = Inr r"
  shows "(\<not> sublist (lit ''health_score:'') (toLowerCase text) \<longrightarrow> healthScore r = Some 50)
   \<and> (text = pre @ k @ s \<and> toLowerCase k = lit ''health_score:'' \<and>
       \<not> sublist (lit ''health_score:'') (toLowerCase (pre @ butlast k)) \<longrightarrow>
         healthScore r =
           Some (let v = trim (takeWhile (\<lambda>c. \<not> isLineTerminator c) (dropWhile isWhiteSpace s))
                 in if v = [] then 50 else case parseInt v of None \<Rightarrow> 50 | Some n \<Rightarrow> n))
   \<and> (text = pre @ k @ s \<and> toLowerCase k = lit ''health_score:'' \<and>
       \<not> sublist (lit ''health_score:'') (toLowerCase (pre @ butlast k)) \<and>
       parseInt (trim (takeWhile (\<lambda>c. \<not> isLineTerminator c) (dropWhile isWhiteSpace s))) = None \<longrightarrow>
         healthScore r = Some 50)
   \<and> parseInt [] = None
   \<and> (\<not> isWhiteSpace c \<and> c \<noteq> 0x2B \<and> c \<noteq> 0x2D \<and> \<not> (0x30 \<le> c \<and> c \<le> 0x39) \<longrightarrow>
         parseInt (c # cs) = None)"
proof (intro conjI impI)
  have hs: "healthScore r = Some (scoreOf text)"
    using assms by (simp add: parse_Inr_fields)
  show "healthScore r = Some 50" if "\<not> sublist (lit ''health_score:'') (toLowerCase text)"
    using that hs by (simp add: scoreOf_absent)
  show "healthScore r =
           Some (let v = trim (takeWhile (\<lambda>c. \<not> isLineTerminator c) (dropWhile isWhiteSpace s))
                 in if v = [] then 50 else case parseInt v of None \<Rightarrow> 50 | Some n \<Rightarrow> n)"
    if "text = pre @ k @ s \<and> toLowerCase k = lit ''health_score:'' \<and>
       \<not> sublist (lit ''health_score:'') (toLowerCase (pre @ butlast k))"
    using that hs by (simp add: scoreOf_first)
  show "healthScore r = Some 50"
    if "text = pre @ k @ s \<and> toLowerCase k = lit ''health_score:'' \<and>
       \<not> sublist (lit ''health_score:'') (toLowerCase (pre @ butlast k)) \<and>
       parseInt (trim (takeWhile (\<lambda>c. \<not> isLineTerminator c) (dropWhile isWhiteSpace s))) = None"
    using that hs by (simp add: scoreOf_first Let_def)
  show "parseInt [] = None" by (rule parseInt_Nil)
  show "parseInt (c # cs) = None"
    if "\<not> isWhiteSpace c \<and> c \<noteq> 0x2B \<and> c \<noteq> 0x2D \<and> \<not> (0x30 \<le> c \<and> c \<le> 0x39)"
    using that by (intro parseInt_no_digit) simp_all
qed

theorem health_score_fallback_witness:
  "parse (lit ''q'') (lit ''PRODUCT: Tea\<newline>LIST_START\<newline>Tea | 2g | healthy\<newline>LIST_END'') []
     = Inr (projr (parse (lit ''q'') (lit ''PRODUCT: Tea\<newline>LIST_START\<newline>Tea | 2g | healthy\<newline>LIST_END'') []))
   \<and> \<not> sublist (lit ''health_score:'') (toLowerCase (lit ''PRODUCT: Tea\<newline>LIST_START\<newline>Tea | 2g | healthy\<newline>LIST_END''))
   \<and> healthScore (projr (parse (lit ''q'') (lit ''PRODUCT: Tea\<newline>LIST_START\<newline>Tea | 2g | healthy\<newline>LIST_END'') [])) = Some 50
   \<and> parse (lit ''q'') (lit ''Score\<newline>HEALTH_SCORE: abc\<newline>LIST_START\<newline>Tea | 2g | healthy\<newline>LIST_END'') []
     = Inr (projr (parse (lit ''q'') (lit ''Score\<newline>HEALTH_SCORE: abc\<newline>LIST_START\<newline>Tea | 2g | healthy\<newline>LIST_END'') []))
   \<and> lit ''Score\<newline>HEALTH_SCORE: abc\<newline>LIST_START\<newline>Tea | 2g | healthy\<newline>LIST_END''
       = lit ''Score\<newline>'' @ lit ''HEALTH_SCORE:'' @ lit '' abc\<newline>LIST_START\<newline>Tea | 2g | healthy\<newline>LIST_END''
   \<and> toLowerCase (lit ''HEALTH_SCORE:'') = lit ''health_score:''
   \<and> \<not> sublist (lit ''health_score:'') (toLowerCase (lit ''Score\<newline>'' @ butlast (lit ''HEALTH_SCORE:'')))
   \<and> trim (takeWhile (\<lambda>c. \<not> isLineTerminator c)
        (dropWhile isWhiteSpace (lit '' abc\<newline>LIST_START\<newline>Tea | 2g | healthy\<newline>LIST_END''))) = lit ''abc''
   \<and> parseInt (lit ''abc'') = None
   \<and> healthScore (projr (parse (lit ''q'') (lit ''Score\<newline>HEALTH_SCORE: abc\<newline>LIST_START\<newline>Tea | 2g | healthy\<newline>LIST_END'') [])) = Some 50"
proof -
  let ?t1 = "lit ''PRODUCT: Tea\<newline>LIST_START\<newline>Tea | 2g | healthy\<newline>LIST_END''"
  let ?t2 = "lit ''Score\<newline>HEALTH_SCORE: abc\<newline>LIST_START\<newline>Tea | 2g | healthy\<newline>LIST_END''"
  let ?s = "lit '' abc\<newline>LIST_START\<newline>Tea | 2g | healthy\<newline>LIST_END''"
  have p1: "parse (lit ''q'') ?t1 [] = Inr (projr (parse (lit ''q'') ?t1 []))" by code_simp
  have h1: "\<not> sublist (lit ''health_score:'') (toLowerCase ?t1)" by code_simp
  have p2: "parse (lit ''q'') ?t2 [] = Inr (projr (parse (lit ''q'') ?t2 []))" by code_simp
  have d: "?t2 = lit ''Score\<newline>'' @ lit ''HEALTH_SCORE:'' @ ?s" by code_simp
  have k: "toLowerCase (lit ''HEALTH_SCORE:'') = lit ''health_score:''" by code_simp
  have f: "\<not> sublist (lit ''health_score:'') (toLowerCase (lit ''Score\<newline>'' @ butlast (lit ''HEALTH_SCORE:'')))"
    by code_simp
  have v: "trim (takeWhile (\<lambda>c. \<not> isLineTerminator c) (dropWhile isWhiteSpace ?s)) = lit ''abc''"
    by code_simp
  have a: "lit ''abc'' = 0x61 # lit ''bc''" by code_simp
  have c: "\<not> isWhiteSpace 0x61 \<and> (0x61::int) \<noteq> 0x2B \<and> (0x61::int) \<noteq> 0x2D \<and> \<not> (0x30 \<le> (0x61::int) \<and> (0x61::int) \<le> 0x39)"
    by code_simp
  from c health_score_fallback[OF p1, of _ _ _ "0x61" "lit ''bc''"]
  have "parseInt (0x61 # lit ''bc'') = None" by blast
  with a have n: "parseInt (lit ''abc'') = None" by simp
  from h1 health_score_fallback[OF p1]
  have 1: "healthScore (projr (parse (lit ''q'') ?t1 [])) = Some 50"
    by blast
  from d k f v n
  have "?t2 = lit ''Score\<newline>'' @ lit ''HEALTH_SCORE:'' @ ?s \<and> toLowerCase (lit ''HEALTH_SCORE:'') = lit ''health_score:'' \<and>
       \<not> sublist (lit ''health_score:'') (toLowerCase (lit ''Score\<newline>'' @ butlast (lit ''HEALTH_SCORE:''))) \<and>
       parseInt (trim (takeWhile (\<lambda>c. \<not> isLineTerminator c) (dropWhile isWhiteSpace ?s))) = None"
    by simp
  with health_score_fallback[OF p2, of "lit ''Score\<newline>''" "lit ''HEALTH_SCORE:''" ?s]
  have 2: "healthScore (projr (parse (lit ''q'') ?t2 [])) = Some 50"
    by blast
  from p1 h1 1 p2 d k f v n 2 show ?thesis
    by (intro conjI)
qed

text \<open>
  C6 as first stated (the value is the rest of the line that starts with the key) fails: a
  \<^verbatim>\<open>health_score:\<close> in the middle of an earlier line supplies the score although the
  line \<^verbatim>\<open>HEALTH_SCORE: abc\<close> follows, and a key with nothing after it on its line
  takes the number that starts the next line.
\<close>

theorem health_score_not_from_key_line:
  "(case parse (lit ''q'') (lit ''Sugar health_score: 90\<newline>HEALTH_SCORE: abc\<newline>LIST_START\<newline>Tea | 2g | healthy\<newline>LIST_END'') [] of
      Inl e \<Rightarrow> None | Inr r \<Rightarrow> healthScore r) = Some 90
   \<and> (case parse (lit ''q'') (lit ''HEALTH_SCORE:\<newline>35g sugar per 100g\<newline>LIST_START\<newline>Tea | 2g | healthy\<newline>LIST_END'') [] of
      Inl e \<Rightarrow> None | Inr r \<Rightarrow> healthScore r) = Some 35"
  by code_simp

end
